theory Spec2Isabelle
  imports Complex_Main "HOL-Library.Code_Target_Nat" "HOL-Library.Sublist"
begin

section \<open>Strings, characters and numerals\<close>

text \<open>
  The scraper (services/price_scraper.py) works on Python strings. A string is modelled as
  a \<open>char list\<close> in which every \<open>char\<close> is one code point in the range 0..255. In that
  range the pattern class \<open>\d\<close> is exactly the ten ASCII digits, and \<open>\s\<close> (as well as
  \<open>str.strip\<close>) is the twelve characters listed in \<open>is_space\<close>.

  A price is a Python float. Every numeral the scraper converts has at most two fraction
  digits, so the model keeps the exact decimal value as a rational number; comparisons
  with 0.01, 10 and 1000000 give the same answer on the exact value and on the float.
\<close>

definition is_digit :: "char \<Rightarrow> bool" where
  "is_digit c = (c \<in> set ''0123456789'')"

definition is_space :: "char \<Rightarrow> bool" where
  "is_space c = (c \<in> set [CHR 0x09, CHR 0x0A, CHR 0x0B, CHR 0x0C, CHR 0x0D,
                         CHR 0x1C, CHR 0x1D, CHR 0x1E, CHR 0x1F, CHR 0x20,
                         CHR 0x85, CHR 0xA0])"

definition digit_val :: "char \<Rightarrow> nat" where
  "digit_val c = length (takeWhile (\<lambda>d. d \<noteq> c) ''0123456789'')"

definition int_of_digits :: "string \<Rightarrow> nat" where
  "int_of_digits s = foldl (\<lambda>n c. 10 * n + digit_val c) 0 s"

text \<open>
  \<open>py_float\<close> is Python's \<open>float(s)\<close> on plain decimal numerals: digits, optionally
  followed by a point and more digits. Any other string is a \<open>ValueError\<close> (\<open>None\<close>).
  The strings that reach it are cut out of the text by the patterns below, so they hold
  only digits, separators and a point; signs, exponents and the like never occur.
\<close>

definition py_float :: "string \<Rightarrow> rat option" where
  "py_float s =
     (let ip = takeWhile (\<lambda>c. c \<noteq> CHR ''.'') s;
          fp = dropWhile (\<lambda>c. c \<noteq> CHR ''.'') s
      in if ip \<noteq> [] \<and> list_all is_digit ip \<and> fp = [] then Some (of_nat (int_of_digits ip))
         else if ip \<noteq> [] \<and> list_all is_digit ip \<and> tl fp \<noteq> [] \<and> list_all is_digit (tl fp)
         then Some (of_nat (int_of_digits ip)
                    + of_nat (int_of_digits (tl fp)) / 10 ^ length (tl fp))
         else None)"

definition strip :: "string \<Rightarrow> string" where
  "strip s = rev (dropWhile is_space (rev (dropWhile is_space s)))"

definition replace_char :: "char \<Rightarrow> string \<Rightarrow> string" where
  \<comment> \<open>\<open>s.replace(c, '')\<close>\<close>
  "replace_char c s = filter (\<lambda>x. x \<noteq> c) s"

section \<open>Regular expressions\<close>

text \<open>
  Python's \<open>re\<close> module is a backtracking matcher. \<open>rmatch r s\<close> lists every way in which
  \<open>r\<close> matches a prefix of \<open>s\<close>, in the order in which the backtracking matcher tries
  them (greedy operators first take as much as they can); each entry is the text
  consumed, the content of capture group 1 if it took part, and the rest of the input.
  The match that \<open>re\<close> reports at a position is the first entry.
\<close>

datatype regex =
    Cls "char \<Rightarrow> bool"
  | Seq regex regex
  | Star regex
  | Opt regex
  | Grp regex
  | Eps

type_synonym rmatch_result = "string \<times> string option \<times> string"

definition later_group :: "string option \<Rightarrow> string option \<Rightarrow> string option" where
  "later_group g1 g2 = (case g2 of None \<Rightarrow> g1 | Some x \<Rightarrow> Some x)"

definition andthen :: "rmatch_result list \<Rightarrow> (string \<Rightarrow> rmatch_result list) \<Rightarrow> rmatch_result list" where
  "andthen ms f =
     concat (map (\<lambda>(m1, g1, t1). map (\<lambda>(m2, g2, t2). (m1 @ m2, later_group g1 g2, t2)) (f t1)) ms)"

text \<open>
  A starred pattern repeats its body as often as possible before giving iterations back.
  Every starred body of this program consumes at least one character, so \<open>length s\<close>
  iterations are enough on input \<open>s\<close>.
\<close>

primrec star_m :: "(string \<Rightarrow> rmatch_result list) \<Rightarrow> nat \<Rightarrow> string \<Rightarrow> rmatch_result list" where
  "star_m f 0 s = [([], None, s)]"
| "star_m f (Suc n) s =
     andthen (filter (\<lambda>(m1, g1, t1). m1 \<noteq> []) (f s)) (star_m f n) @ [([], None, s)]"

primrec rmatch :: "regex \<Rightarrow> string \<Rightarrow> rmatch_result list" where
  "rmatch (Cls p) s = (case s of [] \<Rightarrow> [] | c # t \<Rightarrow> if p c then [([c], None, t)] else [])"
| "rmatch (Seq a b) s = andthen (rmatch a s) (rmatch b)"
| "rmatch (Star a) s = star_m (rmatch a) (length s) s"
| "rmatch (Opt a) s = rmatch a s @ [([], None, s)]"
| "rmatch (Grp a) s = map (\<lambda>(m, g, t). (m, Some m, t)) (rmatch a s)"
| "rmatch Eps s = [([], None, s)]"

text \<open>\<open>re.search\<close>: the first match at the leftmost position that has one.\<close>

fun re_search :: "regex \<Rightarrow> string \<Rightarrow> rmatch_result option" where
  "re_search r [] = (case rmatch r [] of [] \<Rightarrow> None | m # ms \<Rightarrow> Some m)"
| "re_search r (c # s) = (case rmatch r (c # s) of [] \<Rightarrow> re_search r s | m # ms \<Rightarrow> Some m)"

text \<open>Pattern fragments shared by the patterns of the scraper.\<close>

definition digit :: regex where
  "digit = Cls is_digit"

definition plus :: "regex \<Rightarrow> regex" where
  "plus r = Seq r (Star r)"

definition amount :: regex where
  \<comment> \<open>\<open>\d+(?:[,\s]\d{3})*(?:\.\d{2})?\<close>\<close>
  "amount =
     Seq (plus digit)
      (Seq (Star (Seq (Cls (\<lambda>c. c = CHR '','' \<or> is_space c)) (Seq digit (Seq digit digit))))
           (Opt (Seq (Cls (\<lambda>c. c = CHR ''.'')) (Seq digit digit))))"

definition currency :: regex where
  \<comment> \<open>\<open>[$R]\<close>\<close>
  "currency = Cls (\<lambda>c. c = CHR ''$'' \<or> c = CHR ''R'')"

definition currency_patterns :: "regex list" where
  "currency_patterns =
     [ Seq currency (Seq (Star (Cls is_space)) (Grp amount)),
       Seq (Grp amount) (Seq (Star (Cls is_space)) currency) ]"

definition number_pattern :: regex where
  \<comment> \<open>\<open>\d+(?:\.\d{2})?\<close>\<close>
  "number_pattern = Seq (plus digit) (Opt (Seq (Cls (\<lambda>c. c = CHR ''.'')) (Seq digit digit)))"

definition price_regex :: regex where
  \<comment> \<open>\<open>[R$]\s*\d+(?:[,\s]\d{3})*(?:\.\d{2})?\<close>\<close>
  "price_regex = Seq currency (Seq (Star (Cls is_space)) amount)"

text \<open>
  \<open>re.findall\<close> for a pattern without capture groups: the matched texts, left to right,
  each scan resuming where the previous match ended. No pattern of this program matches
  the empty string, so a match always moves the scan forward; the test on the lengths
  says so.
\<close>

function findall :: "regex \<Rightarrow> string \<Rightarrow> string list" where
  "findall r s =
     (case re_search r s of
        None \<Rightarrow> []
      | Some (m, g, t) \<Rightarrow> if length t < length s then m # findall r t else [])"
  by pat_completeness auto
termination
  by (relation "measure (\<lambda>(r, s). length s)") auto

declare findall.simps [simp del]

section \<open>parse_price\<close>

text \<open>
  The loop over \<open>currency_patterns\<close>: the first pattern whose match converts to a float
  inside the sanity window returns; a match that fails the window, or whose text does not
  convert (\<open>ValueError\<close>), moves on to the next pattern. \<open>match.group(1)\<close> is the
  text of the capture group; it takes part in every match of both patterns.
\<close>

fun try_currency :: "regex list \<Rightarrow> string \<Rightarrow> rat option" where
  "try_currency [] text = None"
| "try_currency (pattern # patterns) text =
     (case re_search pattern text of
        None \<Rightarrow> try_currency patterns text
      | Some (m, g, t) \<Rightarrow>
          (case py_float (replace_char (CHR '' '') (replace_char (CHR '','') (case g of None \<Rightarrow> [] | Some x \<Rightarrow> x))) of
             None \<Rightarrow> try_currency patterns text
           | Some price \<Rightarrow>
               if 1 / 100 < price \<and> price < 1000000 then Some price
               else try_currency patterns text))"

text \<open>The loop over \<open>all_numbers\<close>: the first number that is at least 10.\<close>

fun try_numbers :: "string list \<Rightarrow> rat option" where
  "try_numbers [] = None"
| "try_numbers (num_str # rest) =
     (case py_float num_str of
        None \<Rightarrow> try_numbers rest
      | Some price \<Rightarrow> if 10 \<le> price then Some price else try_numbers rest)"

definition parse_price :: "string \<Rightarrow> rat option" where
  "parse_price text =
     (case try_currency currency_patterns (strip text) of
        Some price \<Rightarrow> Some price
      | None \<Rightarrow> try_numbers (findall number_pattern (strip text)))"

text \<open>
  \<open>str(p)\<close> of a float \<open>p\<close> that is a multiple of 0.01 with at most 15 significant
  digits: Python prints the shortest decimal that reads back as \<open>p\<close>, which is the
  decimal itself without trailing zeros, but with at least one fraction digit.
\<close>

definition digit_char :: "nat \<Rightarrow> char" where
  "digit_char d = ''0123456789'' ! (d mod 10)"

fun digits_of :: "nat \<Rightarrow> string" where
  "digits_of n = (if n < 10 then [digit_char n] else digits_of (n div 10) @ [digit_char (n mod 10)])"

declare digits_of.simps [simp del]

definition py_str :: "rat \<Rightarrow> string" where
  "py_str p =
     (let n = nat \<lfloor>p\<rfloor>; c = nat \<lfloor>(p - of_nat n) * 100\<rfloor>
      in digits_of n @ ''.'' @
         (if c mod 10 = 0 then [digit_char (c div 10)]
          else [digit_char (c div 10), digit_char (c mod 10)]))"

section \<open>The parsed document\<close>

text \<open>
  \<open>BeautifulSoup(html, 'html.parser')\<close> turns the markup into a tree of tags and
  strings. An attribute value is a string, except \<open>class\<close>, which the parser splits
  into a list of tokens. \<open>find_all\<close> walks the tags in document order.

  The parser gives the strings inside \<open>script\<close>, \<open>style\<close>, \<open>template\<close>, \<open>rt\<close>
  and \<open>rp\<close> elements, and comments, a class of their own: \<open>Special kind s\<close>, where
  \<open>kind\<close> is the name of the element (\<open>comment\<close> for a comment). \<open>get_text\<close> of an
  element joins the ordinary text below it and leaves the special strings out; called
  on one of the five elements themselves, it joins the strings of that element's kind.
\<close>

datatype attr_value = Str string | Multi "string list"

datatype node =
    Text string
  | Special string string
  | Tag string "string \<rightharpoonup> attr_value" "node list"

fun strings_of :: "string option \<Rightarrow> node \<Rightarrow> string" where
  "strings_of kind (Text s) = (if kind = None then s else [])"
| "strings_of kind (Special k s) = (if kind = Some k then s else [])"
| "strings_of kind (Tag name attrs children) = concat (map (strings_of kind) children)"

fun get_text :: "node \<Rightarrow> string" where
  "get_text (Text s) = s"
| "get_text (Special k s) = s"
| "get_text (Tag name attrs children) =
     strings_of (if name \<in> set [''rt'', ''rp'', ''style'', ''script'', ''template'']
                 then Some name else None)
       (Tag name attrs children)"

fun tags :: "node \<Rightarrow> node list" where
  "tags (Text s) = []"
| "tags (Special k s) = []"
| "tags (Tag name attrs children) = Tag name attrs children # concat (map tags children)"

fun attrs_of :: "node \<Rightarrow> string \<rightharpoonup> attr_value" where
  "attrs_of (Text s) = Map.empty"
| "attrs_of (Special k s) = Map.empty"
| "attrs_of (Tag name attrs children) = attrs"

text \<open>
  The values of an \<open>attrs=\<close> filter: a compiled pattern, a plain string, or \<open>True\<close>.
  A pattern is searched in the attribute value, a string must equal it, \<open>True\<close> asks
  for the attribute to be there. On a token list each token is tried, then the tokens
  joined by spaces. An absent attribute matches none of them.
\<close>

datatype matcher = Regex regex | Literal string | Present

fun join_space :: "string list \<Rightarrow> string" where
  "join_space [] = []"
| "join_space [t] = t"
| "join_space (t # ts) = t @ '' '' @ join_space ts"

fun value_matches :: "matcher \<Rightarrow> string \<Rightarrow> bool" where
  "value_matches (Regex r) v = (re_search r v \<noteq> None)"
| "value_matches (Literal x) v = (v = x)"
| "value_matches Present v = True"

fun attr_matches :: "matcher \<Rightarrow> attr_value option \<Rightarrow> bool" where
  "attr_matches m None = False"
| "attr_matches m (Some (Str v)) = value_matches m v"
| "attr_matches m (Some (Multi ts)) = (list_ex (value_matches m) ts \<or> value_matches m (join_space ts))"

definition find_all :: "node list \<Rightarrow> string \<times> matcher \<Rightarrow> node list" where
  \<comment> \<open>\<open>soup.find_all(attrs={name: m})\<close>\<close>
  "find_all soup pattern =
     filter (\<lambda>element. attr_matches (snd pattern) (attrs_of element (fst pattern))) (concat (map tags soup))"

text \<open>\<open>re.compile(word, re.I)\<close> for a lower-case word: each letter in either case.\<close>

definition lower :: "char \<Rightarrow> char" where
  "lower c =
     (case map_of (zip ''ABCDEFGHIJKLMNOPQRSTUVWXYZ'' ''abcdefghijklmnopqrstuvwxyz'') c of
        None \<Rightarrow> c | Some l \<Rightarrow> l)"

definition ignore_case :: "string \<Rightarrow> regex" where
  "ignore_case word = foldr (\<lambda>l r. Seq (Cls (\<lambda>c. lower c = l)) r) word Eps"

definition price_patterns :: "(string \<times> matcher) list" where
  "price_patterns =
     [ (''class'', Regex (ignore_case ''price'')),
       (''id'', Regex (ignore_case ''price'')),
       (''itemprop'', Literal ''price''),
       (''class'', Regex (ignore_case ''cost'')),
       (''class'', Regex (ignore_case ''amount'')),
       (''data-price'', Present),
       (''class'', Regex (ignore_case ''product-price'')) ]"

section \<open>extract_price\<close>

text \<open>
  Exceptions are values: \<open>exn\<close> stands for the classes derived from \<open>Exception\<close>, of
  which the code singles out \<open>ImportError\<close>. The libraries the scraper calls are
  parameters of the model: the HTML parser, the CSS selector engine, the HTTP client and
  the browser driver, each with the outcome of every call (a value or an exception).
  Printing to the console is left out.
\<close>

datatype exn = ImportError | Exception string

record response =
  raise_for_status :: "exn option"
  "text" :: string

record env =
  BeautifulSoup :: "string \<Rightarrow> exn + node list"
  select :: "node list \<Rightarrow> string \<Rightarrow> exn + node list"
  requests_get :: "string \<Rightarrow> exn + response"
  import_selenium :: "exn option"
  Chrome :: "exn option"
  driver_get :: "string \<Rightarrow> exn option"
  wait_until_body :: "exn option"
  page_source :: "exn + string"
  driver_quit :: "exn option"

definition truthy :: "rat option \<Rightarrow> bool" where
  \<comment> \<open>\<open>if price:\<close> is false for \<open>None\<close> and for \<open>0.0\<close>\<close>
  "truthy price = (case price of None \<Rightarrow> False | Some v \<Rightarrow> v \<noteq> 0)"

text \<open>\<open>for element in elements\<close>: the first element whose text parses to a price.\<close>

fun first_price :: "node list \<Rightarrow> rat option" where
  "first_price [] = None"
| "first_price (element # elements) =
     (let price = parse_price (get_text element)
      in if truthy price then price else first_price elements)"

text \<open>\<open>for pattern in price_patterns\<close>.\<close>

fun try_patterns :: "(string \<times> matcher) list \<Rightarrow> node list \<Rightarrow> rat option" where
  "try_patterns [] soup = None"
| "try_patterns (pattern # patterns) soup =
     (let price = first_price (find_all soup pattern)
      in if truthy price then price else try_patterns patterns soup)"

text \<open>\<open>for match in matches\<close>, over the raw markup.\<close>

fun try_matches :: "string list \<Rightarrow> rat option" where
  "try_matches [] = None"
| "try_matches (match # matches) =
     (let price = parse_price match
      in if truthy price then price else try_matches matches)"

definition selector_stage :: "env \<Rightarrow> node list \<Rightarrow> string option \<Rightarrow> exn + rat option" where
  \<comment> \<open>\<open>if css_selector:\<close> is false for \<open>None\<close> and for the empty string\<close>
  "selector_stage e soup css_selector =
     (case css_selector of
        None \<Rightarrow> Inr None
      | Some sel \<Rightarrow>
          if sel = [] then Inr None
          else (case select e soup sel of
                  Inl x \<Rightarrow> Inl x
                | Inr elements \<Rightarrow> Inr (first_price elements)))"

definition extract_price :: "env \<Rightarrow> string \<Rightarrow> string option \<Rightarrow> exn + rat option" where
  "extract_price e html css_selector =
     (case BeautifulSoup e html of
        Inl x \<Rightarrow> Inl x
      | Inr soup \<Rightarrow>
          (case selector_stage e soup css_selector of
             Inl x \<Rightarrow> Inl x
           | Inr (Some price) \<Rightarrow> Inr (Some price)
           | Inr None \<Rightarrow>
               (case try_patterns price_patterns soup of
                  Some price \<Rightarrow> Inr (Some price)
                | None \<Rightarrow> Inr (try_matches (findall price_regex html)))))"

section \<open>Fetching\<close>

text \<open>
  \<open>fetch_price_simple\<close>: the body of the \<open>try\<close>, then \<open>except Exception\<close>, which
  returns \<open>None\<close>.
\<close>

definition simple_try :: "env \<Rightarrow> string \<Rightarrow> string option \<Rightarrow> exn + rat option" where
  "simple_try e url css_selector =
     (case requests_get e url of
        Inl x \<Rightarrow> Inl x
      | Inr response \<Rightarrow>
          (case raise_for_status response of
             Some x \<Rightarrow> Inl x
           | None \<Rightarrow> extract_price e (text response) css_selector))"

definition fetch_price_simple :: "env \<Rightarrow> string \<Rightarrow> string option \<Rightarrow> exn + rat option" where
  "fetch_price_simple e url css_selector =
     (case simple_try e url css_selector of
        Inl x \<Rightarrow> Inr None
      | Inr price \<Rightarrow> Inr price)"

text \<open>
  The browser session is a resource: the model records when \<open>webdriver.Chrome\<close> has
  created one and when \<open>driver.quit()\<close> has been called. \<open>selenium_try\<close> is the body
  of the \<open>try\<close> in \<open>fetch_price_selenium\<close>, statement by statement; an exception
  leaves the body at the statement that raised it.
\<close>

datatype event = Session_created | Quit_called

definition selenium_try :: "env \<Rightarrow> string \<Rightarrow> string option \<Rightarrow> (exn + rat option) \<times> event list" where
  "selenium_try e url css_selector =
     (case import_selenium e of
        Some x \<Rightarrow> (Inl x, [])
      | None \<Rightarrow>
     (case Chrome e of
        Some x \<Rightarrow> (Inl x, [])
      | None \<Rightarrow>
     (case driver_get e url of
        Some x \<Rightarrow> (Inl x, [Session_created])
      | None \<Rightarrow>
     (case wait_until_body e of
        Some x \<Rightarrow> (Inl x, [Session_created])
      | None \<Rightarrow>
     (case page_source e of
        Inl x \<Rightarrow> (Inl x, [Session_created])
      | Inr html \<Rightarrow>
     (case driver_quit e of
        Some x \<Rightarrow> (Inl x, [Session_created, Quit_called])
      | None \<Rightarrow> (extract_price e html css_selector, [Session_created, Quit_called])))))))"

definition fetch_price_selenium :: "env \<Rightarrow> string \<Rightarrow> string option \<Rightarrow> (exn + rat option) \<times> event list" where
  "fetch_price_selenium e url css_selector =
     (case selenium_try e url css_selector of
        (Inl ImportError, evs) \<Rightarrow> (Inr None, evs)
      | (Inl (Exception msg), evs) \<Rightarrow> (Inr None, evs)
      | (Inr price, evs) \<Rightarrow> (Inr price, evs))"

definition fetch_price :: "env \<Rightarrow> string \<Rightarrow> string option \<Rightarrow> bool \<Rightarrow> (exn + rat option) \<times> event list" where
  "fetch_price e url css_selector force_selenium =
     (if force_selenium then fetch_price_selenium e url css_selector
      else (case fetch_price_simple e url css_selector of
              Inl x \<Rightarrow> (Inl x, [])
            | Inr price \<Rightarrow>
                if truthy price then (Inr price, [])
                else (case fetch_price_selenium e url css_selector of
                        (Inl x, evs) \<Rightarrow> (Inl x, evs)
                      | (Inr price, evs) \<Rightarrow>
                          if truthy price then (Inr price, evs) else (Inr None, evs))))"

text \<open>
  An environment for examples: a site whose pages are plain text without tags. The HTTP
  client delivers \<open>static\<close>, the browser renders \<open>rendered\<close>, nothing raises, the
  parser returns the markup as one text node and no selector matches anything.
\<close>

definition plain_text_site :: "string \<Rightarrow> string \<Rightarrow> env" where
  "plain_text_site static rendered =
     \<lparr> BeautifulSoup = (\<lambda>html. Inr [Text html]),
       select = (\<lambda>soup sel. Inr []),
       requests_get = (\<lambda>url. Inr \<lparr> raise_for_status = None, text = static \<rparr>),
       import_selenium = None,
       Chrome = None,
       driver_get = (\<lambda>url. None),
       wait_until_body = None,
       page_source = Inr rendered,
       driver_quit = None \<rparr>"

section \<open>The attribute probes in words\<close>

text \<open>
  The heuristic stage as a description rather than as loops. An attribute contains a word
  when the word occurs in its text with the case of letters ignored (the text of a token
  list is its tokens joined by spaces); it equals a string when its text, or one of its
  tokens, is that string. The probes are listed in the order in which the scraper tries
  them, the candidates are the elements each probe reaches, probe after probe and in
  document order within a probe, and the result is the price of the first candidate
  whose text parses.
\<close>

definition attr_contains :: "string \<Rightarrow> attr_value option \<Rightarrow> bool" where
  "attr_contains word v =
     (case v of
        None \<Rightarrow> False
      | Some (Str s) \<Rightarrow> sublist word (map lower s)
      | Some (Multi ts) \<Rightarrow> sublist word (map lower (join_space ts)))"

definition attr_equals :: "string \<Rightarrow> attr_value option \<Rightarrow> bool" where
  "attr_equals x v =
     (case v of
        None \<Rightarrow> False
      | Some (Str s) \<Rightarrow> s = x
      | Some (Multi ts) \<Rightarrow> x \<in> set ts \<or> join_space ts = x)"

definition heuristic_probes :: "(node \<Rightarrow> bool) list" where
  "heuristic_probes =
     [ \<lambda>el. attr_contains ''price'' (attrs_of el ''class''),
       \<lambda>el. attr_contains ''price'' (attrs_of el ''id''),
       \<lambda>el. attr_equals ''price'' (attrs_of el ''itemprop''),
       \<lambda>el. attr_contains ''cost'' (attrs_of el ''class''),
       \<lambda>el. attr_contains ''amount'' (attrs_of el ''class''),
       \<lambda>el. attrs_of el ''data-price'' \<noteq> None,
       \<lambda>el. attr_contains ''product-price'' (attrs_of el ''class'') ]"

definition heuristic_candidates :: "node list \<Rightarrow> node list" where
  "heuristic_candidates soup =
     concat (map (\<lambda>probe. filter probe (concat (map tags soup))) heuristic_probes)"

definition first_valid :: "node list \<Rightarrow> rat option" where
  "first_valid elements =
     (case filter (\<lambda>el. parse_price (get_text el) \<noteq> None) elements of
        [] \<Rightarrow> None
      | el # rest \<Rightarrow> parse_price (get_text el))"

section \<open>Concrete prices\<close>

text \<open>
  C8. \<open>parse_price("R 1 299,00")\<close> returns 1299.00: the match after the currency symbol
  is the space-grouped amount \<open>1 299\<close>, whose separators are removed before conversion.
\<close>

theorem parse_price_space_grouped:
  "re_search (hd currency_patterns) (strip ''R 1 299,00'') = Some (''R 1 299'', Some ''1 299'', '',00'')
   \<and> parse_price ''R 1 299,00'' = Some 1299"
  by code_simp

text \<open>
  C9. The sanity window is not an upper bound on the result of \<open>parse_price\<close>: on
  \<open>$5000000\<close> the first currency pattern matches the digit run, the currency-anchored
  stage accepts nothing, and the numeric fallback returns 5000000.
\<close>

theorem parse_price_above_window:
  "re_search (hd currency_patterns) (strip ''$5000000'') = Some (''$5000000'', Some ''5000000'', [])
   \<and> try_currency currency_patterns (strip ''$5000000'') = None
   \<and> parse_price ''$5000000'' = Some 5000000
   \<and> \<not> (5000000 :: rat) < 1000000"
  by code_simp

section \<open>Bounds on accepted prices\<close>

lemma try_currency_window:
  "try_currency ps t = Some p \<Longrightarrow> 1 / 100 < p \<and> p < 1000000"
  by (induction ps t rule: try_currency.induct) (auto split: option.splits if_splits)

lemma try_numbers_floor: "try_numbers ns = Some p \<Longrightarrow> 10 \<le> p"
  by (induction ns) (auto split: option.splits if_splits)

lemma parse_price_positive: "parse_price t = Some p \<Longrightarrow> 0 < p"
  by (auto simp: parse_price_def split: option.splits
           dest!: try_currency_window try_numbers_floor)

lemma first_price_positive: "first_price es = Some p \<Longrightarrow> 0 < p"
  by (induction es) (auto simp: Let_def split: if_splits dest: parse_price_positive)

lemma try_patterns_positive: "try_patterns ps soup = Some p \<Longrightarrow> 0 < p"
  by (induction ps) (auto simp: Let_def split: if_splits dest: first_price_positive)

lemma try_matches_positive: "try_matches ms = Some p \<Longrightarrow> 0 < p"
  by (induction ms) (auto simp: Let_def split: if_splits dest: parse_price_positive)

lemma selector_stage_positive: "selector_stage e soup sel = Inr (Some p) \<Longrightarrow> 0 < p"
  by (auto simp: selector_stage_def split: option.splits if_splits sum.splits
           dest: first_price_positive)

lemma extract_price_positive: "extract_price e html sel = Inr (Some p) \<Longrightarrow> 0 < p"
  by (auto simp: extract_price_def split: option.splits sum.splits
           dest: selector_stage_positive try_patterns_positive try_matches_positive)

lemma fetch_price_simple_positive: "fetch_price_simple e url sel = Inr (Some p) \<Longrightarrow> 0 < p"
  by (auto simp: fetch_price_simple_def simple_try_def split: option.splits sum.splits
           dest: extract_price_positive)

lemma selenium_try_positive: "fst (selenium_try e url sel) = Inr (Some p) \<Longrightarrow> 0 < p"
  by (auto simp: selenium_try_def split: option.splits sum.splits
           dest: extract_price_positive)

lemma fetch_price_selenium_positive:
  "fst (fetch_price_selenium e url sel) = Inr (Some p) \<Longrightarrow> 0 < p"
  using selenium_try_positive [of e url sel p]
  by (auto simp: fetch_price_selenium_def split: prod.splits sum.splits exn.splits)

lemma fetch_price_positive:
  "fst (fetch_price e url sel force) = Inr (Some p) \<Longrightarrow> 0 < p"
  using fetch_price_selenium_positive [of e url sel p] fetch_price_simple_positive [of e url sel p]
  by (auto simp: fetch_price_def split: prod.splits sum.splits if_splits)


text \<open>
  C5. A price accepted by the currency-anchored stage lies strictly between 0.01 and
  1000000, a price accepted by the numeric fallback is at least 10, and so every price
  returned by \<open>parse_price\<close>, \<open>extract_price\<close> and \<open>fetch_price\<close> is strictly
  positive.
\<close>

theorem price_bounds:
  "(try_currency currency_patterns (strip t1) = Some p1 \<longrightarrow> 1 / 100 < p1 \<and> p1 < 1000000)
   \<and> (try_currency currency_patterns (strip t2) = None
        \<and> try_numbers (findall number_pattern (strip t2)) = Some p2 \<longrightarrow> 10 \<le> p2)
   \<and> (parse_price t3 = Some p3 \<longrightarrow> 0 < p3)
   \<and> (extract_price e4 html sel4 = Inr (Some p4) \<longrightarrow> 0 < p4)
   \<and> (fst (fetch_price e5 url sel5 force) = Inr (Some p5) \<longrightarrow> 0 < p5)"
  using try_currency_window [of currency_patterns "strip t1" p1]
    try_numbers_floor [of "findall number_pattern (strip t2)" p2]
    parse_price_positive [of t3 p3] extract_price_positive [of e4 html sel4 p4]
    fetch_price_positive [of e5 url sel5 force p5]
  by blast

theorem price_bounds_witness:
  "try_currency currency_patterns (strip ''$49.99'') = Some (4999 / 100)
   \<and> try_currency currency_patterns (strip ''1299'') = None
   \<and> try_numbers (findall number_pattern (strip ''1299'')) = Some 1299
   \<and> parse_price ''$49.99'' = Some (4999 / 100)
   \<and> extract_price (plain_text_site ''Loading'' ''Now $49.99'') ''Now $49.99'' None = Inr (Some (4999 / 100))
   \<and> fst (fetch_price (plain_text_site ''Loading'' ''Now $49.99'') ''http://shop'' None False) = Inr (Some (4999 / 100))
   \<and> (1 / 100 < (4999 / 100 :: rat) \<and> (4999 / 100 :: rat) < 1000000)
   \<and> (10 :: rat) \<le> 1299 \<and> (0 :: rat) < 4999 / 100"
proof -
  have h1: "try_currency currency_patterns (strip ''$49.99'') = Some (4999 / 100)"
    by code_simp
  have h2: "try_currency currency_patterns (strip ''1299'') = None
            \<and> try_numbers (findall number_pattern (strip ''1299'')) = Some 1299"
    by code_simp
  have h3: "parse_price ''$49.99'' = Some (4999 / 100)"
    by code_simp
  have h4: "extract_price (plain_text_site ''Loading'' ''Now $49.99'') ''Now $49.99'' None = Inr (Some (4999 / 100))"
    by code_simp
  have h5: "fst (fetch_price (plain_text_site ''Loading'' ''Now $49.99'') ''http://shop'' None False) = Inr (Some (4999 / 100))"
    by code_simp
  show ?thesis
    using h1 h2 h3 h4 h5
      price_bounds [of "''$49.99''" "4999 / 100" "''1299''" 1299 "''$49.99''" "4999 / 100"
        "plain_text_site ''Loading'' ''Now $49.99''" "''Now $49.99''" None "4999 / 100"
        "plain_text_site ''Loading'' ''Now $49.99''" "''http://shop''" None False "4999 / 100"]
    by simp
qed

section \<open>Evaluating patterns on partly known text\<close>

lemma andthen_Nil: "andthen [] f = []"
  by (simp add: andthen_def)

lemma andthen_Cons:
  "andthen ((m, g, t) # ms) f =
     map (\<lambda>(m2, g2, t2). (m @ m2, later_group g g2, t2)) (f t) @ andthen ms f"
  by (simp add: andthen_def)

lemma rmatch_price_regex_other:
  "c \<noteq> CHR ''$'' \<Longrightarrow> c \<noteq> CHR ''R'' \<Longrightarrow> rmatch price_regex (c # s) = []"
  by (simp add: price_regex_def currency_def andthen_Nil)

lemma re_search_price_regex_skip:
  "\<forall>c \<in> set pre. c \<noteq> CHR ''$'' \<and> c \<noteq> CHR ''R'' \<Longrightarrow>
   re_search price_regex (pre @ s) = re_search price_regex s"
  by (induction pre) (simp_all add: rmatch_price_regex_other)

lemma char_classes_4999:
  "is_digit (CHR ''4'')" "is_digit (CHR ''9'')" "\<not> is_digit (CHR ''.'')"
  "\<not> is_space (CHR ''4'')" "\<not> is_space (CHR ''.'')"
  by (simp_all add: is_digit_def is_space_def)

lemma rmatch_price_regex_4999:
  "rmatch price_regex (''$49.99'' @ post) =
     [(''$49.99'', None, post), (''$49'', None, ''.99'' @ post), (''$4'', None, ''9.99'' @ post)]"
  by (simp add: price_regex_def currency_def amount_def plus_def digit_def andthen_Nil
      andthen_Cons later_group_def char_classes_4999)

lemma findall_price_regex_4999:
  assumes "\<forall>c \<in> set pre. c \<noteq> CHR ''$'' \<and> c \<noteq> CHR ''R''"
  shows "findall price_regex (pre @ ''$49.99'' @ post) = ''$49.99'' # findall price_regex post"
proof -
  have "re_search price_regex (pre @ ''$49.99'' @ post) = re_search price_regex (''$49.99'' @ post)"
    using assms by (rule re_search_price_regex_skip)
  also have "\<dots> = Some (''$49.99'', None, post)"
    using rmatch_price_regex_4999 [of post] by simp
  finally show ?thesis
    by (subst findall.simps) simp
qed


section \<open>Exceptions and the browser session\<close>

lemma fetch_price_simple_returns: "\<exists>price. fetch_price_simple e url css_selector = Inr price"
  by (simp add: fetch_price_simple_def split: sum.split)

lemma fetch_price_selenium_returns:
  "\<exists>price. fst (fetch_price_selenium e url css_selector) = Inr price"
  by (simp add: fetch_price_selenium_def split: prod.split sum.split exn.split)

text \<open>
  C1. The claim is that \<open>driver.quit()\<close> is called on every path that has created a
  browser session. On a page whose navigation fails, \<open>fetch_price_selenium\<close> returns
  \<open>None\<close> with a session created and \<open>quit\<close> never called.
\<close>

theorem quit_skipped_when_navigation_fails:
  "fetch_price_selenium
     ((plain_text_site ''Loading'' ''Now $49.99'')
        \<lparr> driver_get := (\<lambda>url. Some (Exception ''net::ERR_NAME_NOT_RESOLVED'')) \<rparr>)
     ''http://shop'' None
   = (Inr None, [Session_created])"
  by (simp add: fetch_price_selenium_def selenium_try_def plain_text_site_def)

text \<open>
  C2. \<open>fetch_price\<close> never raises: for every environment, url, selector and flag it
  returns a price or \<open>None\<close>, whichever of the library calls fail, the import of the
  browser-automation library included.
\<close>

theorem fetch_price_never_raises:
  "\<exists>price. fst (fetch_price e url css_selector force_selenium) = Inr price"
  using fetch_price_simple_returns [of e url css_selector]
    fetch_price_selenium_returns [of e url css_selector]
  by (auto simp: fetch_price_def split: prod.splits sum.splits)

section \<open>Fallback from the static fetch to the browser\<close>




section \<open>The order of the attribute probes\<close>

lemma first_price_truthy: "first_price es = None \<or> truthy (first_price es)"
  by (induction es) (auto simp: Let_def)

lemma first_price_append:
  "first_price (xs @ ys) = (if truthy (first_price xs) then first_price xs else first_price ys)"
  by (induction xs) (auto simp: Let_def truthy_def)

lemma try_patterns_concat:
  "try_patterns ps soup = first_price (concat (map (find_all soup) ps))"
proof (induction ps)
  case Nil
  show ?case by simp
next
  case (Cons p ps)
  show ?case
    using first_price_truthy [of "find_all soup p"] Cons.IH
    by (auto simp: Let_def first_price_append truthy_def)
qed

lemma find_all_probed:
  assumes "pat \<in> set price_patterns"
  shows "find_all soup pat =
         filter (\<lambda>el. attr_matches (snd pat) (attrs_of el (fst pat)))
           (filter (\<lambda>el. list_ex (\<lambda>pat. attr_matches (snd pat) (attrs_of el (fst pat))) price_patterns)
              (concat (map tags soup)))"
  using assms by (auto simp: find_all_def list_ex_iff intro!: filter_cong)

lemma probes_on_itemprop:
  "map (\<lambda>pat. attr_matches (snd pat) ([''itemprop'' \<mapsto> Str ''price''] (fst pat))) price_patterns
   = [False, False, True, False, False, False, False]"
  by code_simp

lemma probes_on_amount:
  "map (\<lambda>pat. attr_matches (snd pat) ([''class'' \<mapsto> Multi [''amount'']] (fst pat))) price_patterns
   = [False, False, False, False, True, False, False]"
  by code_simp

lemma parse_price_1299: "parse_price ''R1,299.00'' = Some 1299"
  by code_simp


text \<open>
  C6. In a document where no selector matches and the attribute probes reach exactly two
  elements, one with \<open>itemprop="price"\<close> and the text \<open>R1,299.00\<close>, one with
  \<open>class="amount"\<close> and the text \<open>R50\<close>, in either document order, \<open>extract_price\<close>
  returns 1299.00.
\<close>

theorem itemprop_probed_before_amount:
  assumes soup: "BeautifulSoup e html = Inr soup"
    and sel: "selector_stage e soup css_selector = Inr None"
    and a: "attrs_of a = [''itemprop'' \<mapsto> Str ''price'']" "get_text a = ''R1,299.00''"
    and b: "attrs_of b = [''class'' \<mapsto> Multi [''amount'']]" "get_text b = ''R50''"
    and probed:
      "filter (\<lambda>el. list_ex (\<lambda>pat. attr_matches (snd pat) (attrs_of el (fst pat))) price_patterns)
         (concat (map tags soup)) = [a, b]
       \<or> filter (\<lambda>el. list_ex (\<lambda>pat. attr_matches (snd pat) (attrs_of el (fst pat))) price_patterns)
         (concat (map tags soup)) = [b, a]"
  shows "extract_price e html css_selector = Inr (Some 1299)"
proof -
  define reached where
    "reached = filter (\<lambda>el. list_ex (\<lambda>pat. attr_matches (snd pat) (attrs_of el (fst pat))) price_patterns)
         (concat (map tags soup))"
  let ?cand = "\<lambda>xs. concat (map (\<lambda>pat. filter (\<lambda>el. attr_matches (snd pat) (attrs_of el (fst pat))) xs) price_patterns)"
  have "find_all soup pat = filter (\<lambda>el. attr_matches (snd pat) (attrs_of el (fst pat))) reached"
    if "pat \<in> set price_patterns" for pat
    unfolding reached_def using that by (rule find_all_probed)
  then have found: "concat (map (find_all soup) price_patterns) = ?cand reached"
    by (simp cong: map_cong)
  have order: "?cand [a, b] = [a, b]" "?cand [b, a] = [a, b]"
    using probes_on_itemprop probes_on_amount by (simp_all add: price_patterns_def a b)
  from probed have "reached = [a, b] \<or> reached = [b, a]"
    by (simp only: reached_def)
  then have "?cand reached = [a, b]"
    using order by (elim disjE) (simp_all only:)
  with found have "concat (map (find_all soup) price_patterns) = [a, b]"
    by simp
  then have "try_patterns price_patterns soup = Some 1299"
    using parse_price_1299 by (simp add: try_patterns_concat a truthy_def)
  then show ?thesis
    using soup sel by (simp add: extract_price_def)
qed

theorem itemprop_probed_before_amount_witness:
  "extract_price
     ((plain_text_site [] [])
        \<lparr> BeautifulSoup := (\<lambda>html. Inr
             [Tag ''span'' [''class'' \<mapsto> Multi [''amount'']] [Text ''R50''],
              Tag ''span'' [''itemprop'' \<mapsto> Str ''price''] [Text ''R1,299.00'']]) \<rparr>)
     ''<span class=amount>R50</span><span itemprop=price>R1,299.00</span>'' None
   = Inr (Some 1299)"
proof -
  have qa: "list_ex (\<lambda>pat. attr_matches (snd pat) ([''itemprop'' \<mapsto> Str ''price''] (fst pat))) price_patterns"
    by code_simp
  have qb: "list_ex (\<lambda>pat. attr_matches (snd pat) ([''class'' \<mapsto> Multi [''amount'']] (fst pat))) price_patterns"
    by code_simp
  show ?thesis
    using itemprop_probed_before_amount
      [of "(plain_text_site [] [])
        \<lparr> BeautifulSoup := (\<lambda>html. Inr
             [Tag ''span'' [''class'' \<mapsto> Multi [''amount'']] [Text ''R50''],
              Tag ''span'' [''itemprop'' \<mapsto> Str ''price''] [Text ''R1,299.00'']]) \<rparr>"
          "''<span class=amount>R50</span><span itemprop=price>R1,299.00</span>''"
          "[Tag ''span'' [''class'' \<mapsto> Multi [''amount'']] [Text ''R50''],
              Tag ''span'' [''itemprop'' \<mapsto> Str ''price''] [Text ''R1,299.00'']]"
          None
          "Tag ''span'' [''itemprop'' \<mapsto> Str ''price''] [Text ''R1,299.00'']"
          "Tag ''span'' [''class'' \<mapsto> Multi [''amount'']] [Text ''R50'']"]
      qa qb
    by (simp add: selector_stage_def)
qed

section \<open>The heuristic stage is the ordered probe list\<close>

lemma ignore_case_Cons:
  "ignore_case (l # word) = Seq (Cls (\<lambda>c. lower c = l)) (ignore_case word)"
  by (simp add: ignore_case_def)

lemma rmatch_ignore_case:
  "rmatch (ignore_case word) s \<noteq> [] \<longleftrightarrow> prefix word (map lower s)"
proof (induction word arbitrary: s)
  case Nil
  show ?case by (simp add: ignore_case_def)
next
  case (Cons l word)
  show ?case
  proof (cases s)
    case Nil
    then show ?thesis by (simp add: ignore_case_Cons andthen_Nil)
  next
    case (Cons c t)
    then show ?thesis
      using Cons.IH [of t] by (simp add: ignore_case_Cons andthen_Nil andthen_Cons)
  qed
qed

lemma re_search_ignore_case:
  "re_search (ignore_case word) s \<noteq> None \<longleftrightarrow> sublist word (map lower s)"
proof (induction s)
  case Nil
  have "rmatch (ignore_case word) [] \<noteq> [] \<longleftrightarrow> word = []"
    by (simp add: rmatch_ignore_case)
  then show ?case by (cases "rmatch (ignore_case word) []") auto
next
  case (Cons c t)
  have "re_search (ignore_case word) (c # t) \<noteq> None
        \<longleftrightarrow> rmatch (ignore_case word) (c # t) \<noteq> [] \<or> re_search (ignore_case word) t \<noteq> None"
    by (cases "rmatch (ignore_case word) (c # t)") auto
  then show ?case
    using Cons.IH by (simp add: rmatch_ignore_case sublist_Cons_right)
qed

lemma sublist_join_space: "t \<in> set ts \<Longrightarrow> sublist t (join_space ts)"
proof (induction ts rule: join_space.induct)
  case 1
  then show ?case by simp
next
  case (2 t')
  then show ?case by simp
next
  case (3 t' u us)
  from 3 show ?case
  proof (cases "t = t'")
    case True
    then show ?thesis by simp
  next
    case False
    with 3 have "sublist t (join_space (u # us))" by simp
    then obtain ps ss where "join_space (u # us) = ps @ t @ ss"
      by (auto simp: sublist_def)
    then have "join_space (t' # u # us) = (t' @ '' '' @ ps) @ t @ ss"
      by simp
    then show ?thesis
      unfolding sublist_def by blast
  qed
qed

lemma sublist_token:
  assumes "t \<in> set ts" and "sublist word (map lower t)"
  shows "sublist word (map lower (join_space ts))"
proof -
  from assms(1) obtain ps ss where "join_space ts = ps @ t @ ss"
    using sublist_join_space [of t ts] by (auto simp: sublist_def)
  then have "map lower (join_space ts) = map lower ps @ map lower t @ map lower ss"
    by simp
  then have "sublist (map lower t) (map lower (join_space ts))"
    unfolding sublist_def by blast
  with assms(2) show ?thesis
    by (rule sublist_order.order.trans)
qed

lemma value_matches_ignore_case:
  "value_matches (Regex (ignore_case word)) s = sublist word (map lower s)"
  by (simp only: value_matches.simps re_search_ignore_case)

lemma attr_matches_Regex:
  "attr_matches (Regex (ignore_case word)) v = attr_contains word v"
proof (cases v)
  case None
  then show ?thesis by (simp add: attr_contains_def)
next
  case (Some a)
  show ?thesis
  proof (cases a)
    case (Str s)
    with Some show ?thesis
      by (simp add: attr_contains_def value_matches_ignore_case del: value_matches.simps)
  next
    case (Multi ts)
    with Some show ?thesis
      using sublist_token [of _ ts word]
      by (auto simp: attr_contains_def value_matches_ignore_case list_ex_iff
               simp del: value_matches.simps)
  qed
qed

lemma attr_matches_Literal: "attr_matches (Literal x) v = attr_equals x v"
proof (cases v)
  case None
  then show ?thesis by (simp add: attr_equals_def)
next
  case (Some a)
  then show ?thesis
    by (cases a) (auto simp: attr_equals_def list_ex_iff)
qed

lemma attr_matches_Present: "attr_matches Present v = (v \<noteq> None)"
proof (cases v)
  case None
  then show ?thesis by simp
next
  case (Some a)
  then show ?thesis by (cases a) auto
qed

lemma find_all_price_patterns:
  "map (find_all soup) price_patterns
   = map (\<lambda>probe. filter probe (concat (map tags soup))) heuristic_probes"
  by (simp add: price_patterns_def heuristic_probes_def find_all_def
      attr_matches_Regex attr_matches_Literal attr_matches_Present)

lemma first_price_first_valid: "first_price els = first_valid els"
proof (induction els)
  case Nil
  show ?case by (simp add: first_valid_def)
next
  case (Cons el els)
  have "truthy (parse_price (get_text el)) \<longleftrightarrow> parse_price (get_text el) \<noteq> None"
    using parse_price_positive [of "get_text el"] by (auto simp: truthy_def split: option.splits)
  with Cons show ?case
    by (auto simp: first_valid_def Let_def)
qed


text \<open>
  C4, as the code has it. When the selector stage yields nothing, \<open>extract_price\<close>
  probes, in this order: class containing "price" (case ignored), id containing
  "price", itemprop equal to "price", class containing "cost", class containing
  "amount", any data-price attribute, class containing "product-price". Within a probe
  the elements come in document order, each element's text goes to \<open>parse_price\<close>, and
  the first price found is returned; only when there is none does the scan of the raw
  markup decide. The word "cost" is looked for in the class only.
\<close>

theorem heuristic_stage_probe_order:
  assumes "BeautifulSoup e html = Inr soup"
    and "selector_stage e soup css_selector = Inr None"
  shows "extract_price e html css_selector =
         Inr (case first_valid (heuristic_candidates soup) of
                Some price \<Rightarrow> Some price
              | None \<Rightarrow> try_matches (findall price_regex html))"
  using assms
  by (simp add: extract_price_def try_patterns_concat find_all_price_patterns
      first_price_first_valid heuristic_candidates_def split: option.split)

theorem heuristic_stage_probe_order_witness:
  "extract_price
     ((plain_text_site [] [])
        \<lparr> BeautifulSoup := (\<lambda>html. Inr
             [Tag ''span'' [''class'' \<mapsto> Multi [''item-cost'']] [Text ''1299'']]) \<rparr>)
     ''<span class=item-cost>1299</span>'' None
   = Inr (Some 1299)"
proof -
  let ?el = "Tag ''span'' [''class'' \<mapsto> Multi [''item-cost'']] [Text ''1299'']"
  have probes: "map (\<lambda>probe. probe ?el) heuristic_probes
                = [False, False, False, True, False, False, False]"
    by code_simp
  have price: "parse_price ''1299'' = Some 1299"
    by code_simp
  have "heuristic_candidates [?el] = [?el]"
    using probes by (simp add: heuristic_candidates_def heuristic_probes_def)
  then have "first_valid (heuristic_candidates [?el]) = Some 1299"
    using price by (simp add: first_valid_def)
  then show ?thesis
    using heuristic_stage_probe_order
      [of "(plain_text_site [] [])
        \<lparr> BeautifulSoup := (\<lambda>html. Inr
             [Tag ''span'' [''class'' \<mapsto> Multi [''item-cost'']] [Text ''1299'']]) \<rparr>"
          "''<span class=item-cost>1299</span>''" "[?el]" None]
    by (simp add: selector_stage_def)
qed

text \<open>
  C4 as stated also probes the id for "cost". A document whose only element has
  the id \<open>cost\<close> and the text \<open>1299\<close> yields no price, although the text parses.
\<close>

theorem id_cost_not_probed:
  "extract_price
     ((plain_text_site [] [])
        \<lparr> BeautifulSoup := (\<lambda>html. Inr
             [Tag ''span'' [''id'' \<mapsto> Str ''cost''] [Text ''1299'']]) \<rparr>)
     ''<span id=cost>1299</span>'' None
   = Inr None
   \<and> parse_price ''1299'' = Some 1299"
  by code_simp

section \<open>What a match consumes\<close>

lemma andthen_mem:
  "x \<in> set (andthen ms f) \<longleftrightarrow>
     (\<exists>m1 g1 t1 m2 g2 t2. (m1, g1, t1) \<in> set ms \<and> (m2, g2, t2) \<in> set (f t1)
        \<and> x = (m1 @ m2, later_group g1 g2, t2))"
  by (force simp: andthen_def)

lemma star_m_split:
  assumes body: "\<And>s m g t. (m, g, t) \<in> set (f s) \<Longrightarrow> s = m @ t"
  shows "(m, g, t) \<in> set (star_m f n s) \<Longrightarrow> s = m @ t"
proof (induction n arbitrary: s m g t)
  case 0
  then show ?case by simp
next
  case (Suc n)
  from Suc.prems consider "(m, g, t) = ([], None, s)"
    | m1 g1 t1 m2 g2 where "(m1, g1, t1) \<in> set (f s)" "(m2, g2, t) \<in> set (star_m f n t1)"
        "m = m1 @ m2"
    by (auto simp: andthen_mem)
  then show ?case
  proof cases
    case 1
    then show ?thesis by simp
  next
    case 2
    from 2(1) have "s = m1 @ t1" by (rule body)
    moreover from 2(2) have "t1 = m2 @ t" by (rule Suc.IH)
    ultimately show ?thesis using 2(3) by simp
  qed
qed

lemma rmatch_split: "(m, g, t) \<in> set (rmatch r s) \<Longrightarrow> s = m @ t"
proof (induction r arbitrary: s m g t)
  case (Cls p)
  then show ?case by (cases s) (simp_all split: if_splits)
next
  case (Seq a b)
  from Seq.prems obtain m1 g1 t1 m2 g2
    where "(m1, g1, t1) \<in> set (rmatch a s)" "(m2, g2, t) \<in> set (rmatch b t1)" "m = m1 @ m2"
    by (auto simp: andthen_mem)
  then show ?case
    using Seq.IH(1) [of m1 g1 t1 s] Seq.IH(2) [of m2 g2 t t1] by simp
next
  case (Star a)
  from Star.prems have "(m, g, t) \<in> set (star_m (rmatch a) (length s) s)"
    by simp
  then show ?case
    by (rule star_m_split [rotated]) (rule Star.IH)
next
  case (Opt a)
  from Opt.prems have "(m, g, t) \<in> set (rmatch a s) \<or> (m = [] \<and> t = s)"
    by auto
  then show ?case using Opt.IH [of m g t s] by auto
next
  case (Grp a)
  from Grp.prems obtain g' where "(m, g', t) \<in> set (rmatch a s)"
    by auto
  then show ?case by (rule Grp.IH)
next
  case Eps
  then show ?case by simp
qed

lemma re_search_None:
  "(\<And>u. suffix u s \<Longrightarrow> rmatch r u = []) \<Longrightarrow> re_search r s = None"
proof (induction s)
  case Nil
  then show ?case by simp
next
  case (Cons c s)
  have "rmatch r (c # s) = []"
    by (rule Cons.prems) simp
  moreover have "re_search r s = None"
    by (rule Cons.IH) (simp add: Cons.prems suffix_Cons)
  ultimately show ?case by simp
qed

lemma re_search_Some:
  "re_search r s = Some x \<Longrightarrow> \<exists>u ms. suffix u s \<and> rmatch r u = x # ms"
proof (induction s)
  case Nil
  then show ?case by (auto split: list.splits)
next
  case (Cons c s)
  show ?case
  proof (cases "rmatch r (c # s)")
    case Nil
    with Cons.prems have "re_search r s = Some x" by simp
    then obtain u ms where "suffix u s" "rmatch r u = x # ms"
      using Cons.IH by blast
    then show ?thesis by (auto simp: suffix_Cons)
  next
    case (Cons y ys)
    with Cons.prems have "y = x" by simp
    with Cons show ?thesis by (intro exI [of _ "c # s"]) auto
  qed
qed

section \<open>Digit runs\<close>

lemma is_digit_simps:
  "is_digit c \<Longrightarrow> c \<noteq> CHR ''.''"
  "is_digit c \<Longrightarrow> \<not> is_space c"
  "is_digit c \<Longrightarrow> c \<noteq> CHR ''$'' \<and> c \<noteq> CHR ''R''"
  by (auto simp: is_digit_def is_space_def)

lemma rmatch_digit:
  "rmatch digit [] = []"
  "rmatch digit (c # s) = (if is_digit c then [([c], None, s)] else [])"
  by (simp_all add: digit_def)

lemma rmatch_digit_rest: "rest = [] \<or> \<not> is_digit (hd rest) \<Longrightarrow> rmatch digit rest = []"
  by (cases rest) (auto simp: rmatch_digit)

lemma star_digits:
  assumes "\<forall>c \<in> set ds. is_digit c" and "rest = [] \<or> \<not> is_digit (hd rest)"
    and "length ds \<le> n"
  shows "\<exists>ms. star_m (rmatch digit) n (ds @ rest) = (ds, None, rest) # ms"
  using assms
proof (induction ds arbitrary: n)
  case Nil
  then show ?case
    by (cases n) (simp_all add: rmatch_digit_rest andthen_Nil)
next
  case (Cons c cs)
  from Cons.prems obtain k where n: "n = Suc k" and k: "length cs \<le> k"
    by (cases n) auto
  from Cons.prems have c: "is_digit c" and cs: "\<forall>c \<in> set cs. is_digit c"
    by auto
  from Cons.IH [OF cs Cons.prems(2) k]
  obtain ms where "star_m (rmatch digit) k (cs @ rest) = (cs, None, rest) # ms"
    by blast
  then show ?case
    using c by (simp add: n rmatch_digit andthen_Nil andthen_Cons later_group_def)
qed

lemma rmatch_plus_digit:
  assumes "ds \<noteq> []" and "\<forall>c \<in> set ds. is_digit c" and "rest = [] \<or> \<not> is_digit (hd rest)"
  shows "\<exists>ms. rmatch (plus digit) (ds @ rest) = (ds, None, rest) # ms"
proof -
  from assms(1) obtain c cs where ds: "ds = c # cs"
    by (cases ds) auto
  with assms(2) have c: "is_digit c" and cs: "\<forall>c \<in> set cs. is_digit c"
    by auto
  obtain ms where "star_m (rmatch digit) (length (cs @ rest)) (cs @ rest) = (cs, None, rest) # ms"
    using star_digits [OF cs assms(3), of "length (cs @ rest)"] by auto
  then show ?thesis
    using c by (simp add: ds plus_def rmatch_digit andthen_Nil andthen_Cons later_group_def)
qed

lemma rmatch_plus_digit_other:
  "rmatch (plus digit) [] = []"
  "\<not> is_digit c \<Longrightarrow> rmatch (plus digit) (c # s) = []"
  by (simp_all add: plus_def rmatch_digit andthen_Nil)

lemma rmatch_fraction_short:
  "post = [] \<or> \<not> is_digit (hd post) \<Longrightarrow>
   rmatch (Seq (Cls (\<lambda>c. c = CHR ''.'')) (Seq digit digit)) (CHR ''.'' # d # post) = []"
  by (cases post) (auto simp: rmatch_digit andthen_Nil andthen_Cons)

lemma rmatch_fraction_full:
  "is_digit d1 \<Longrightarrow> is_digit d2 \<Longrightarrow>
   rmatch (Seq (Cls (\<lambda>c. c = CHR ''.'')) (Seq digit digit)) (CHR ''.'' # d1 # d2 # post)
   = [([CHR ''.'', d1, d2], None, post)]"
  by (simp add: rmatch_digit andthen_Nil andthen_Cons later_group_def)

lemma rmatch_number_pattern_other:
  "rmatch number_pattern [] = []"
  "\<not> is_digit c \<Longrightarrow> rmatch number_pattern (c # s) = []"
  by (simp_all add: number_pattern_def rmatch_plus_digit_other andthen_Nil)

lemma re_search_number_pattern_skip:
  "\<forall>c \<in> set pre. \<not> is_digit c \<Longrightarrow>
   re_search number_pattern (pre @ s) = re_search number_pattern s"
  by (induction pre) (simp_all add: rmatch_number_pattern_other)

lemma re_search_number_pattern_short:
  assumes "ds \<noteq> []" and "\<forall>c \<in> set ds. is_digit c" and "post = [] \<or> \<not> is_digit (hd post)"
  shows "re_search number_pattern (ds @ CHR ''.'' # d # post) = Some (ds, None, CHR ''.'' # d # post)"
proof -
  obtain ms where "rmatch (plus digit) (ds @ CHR ''.'' # d # post) = (ds, None, CHR ''.'' # d # post) # ms"
    using rmatch_plus_digit [OF assms(1,2), of "CHR ''.'' # d # post"]
    by (auto dest: is_digit_simps(1))
  then have "\<exists>ms. rmatch number_pattern (ds @ CHR ''.'' # d # post) = (ds, None, CHR ''.'' # d # post) # ms"
    using rmatch_fraction_short [OF assms(3), of d]
    by (simp add: number_pattern_def andthen_Cons later_group_def)
  moreover from assms(1) obtain c cs where "ds = c # cs"
    by (cases ds) auto
  ultimately show ?thesis
    by auto
qed

lemma takeWhile_digits: "\<forall>c \<in> set ds. is_digit c \<Longrightarrow> takeWhile (\<lambda>c. c \<noteq> CHR ''.'') (ds @ s) = ds @ takeWhile (\<lambda>c. c \<noteq> CHR ''.'') s"
  by (induction ds) (auto dest: is_digit_simps(1))

lemma dropWhile_digits: "\<forall>c \<in> set ds. is_digit c \<Longrightarrow> dropWhile (\<lambda>c. c \<noteq> CHR ''.'') (ds @ s) = dropWhile (\<lambda>c. c \<noteq> CHR ''.'') s"
  by (induction ds) (auto dest: is_digit_simps(1))

lemma py_float_digits:
  assumes "ds \<noteq> []" and "\<forall>c \<in> set ds. is_digit c"
  shows "py_float ds = Some (of_nat (int_of_digits ds))"
proof -
  have ip: "takeWhile (\<lambda>c. c \<noteq> CHR ''.'') ds = ds"
    and fp: "dropWhile (\<lambda>c. c \<noteq> CHR ''.'') ds = []"
    using takeWhile_digits [OF assms(2), of "[]"] dropWhile_digits [OF assms(2), of "[]"]
    by simp_all
  show ?thesis
    unfolding py_float_def Let_def ip fp using assms by (simp add: list_all_iff)
qed

section \<open>Text without a currency symbol\<close>

lemma rmatch_currency_first:
  assumes "rmatch (Seq currency r) u \<noteq> []"
  shows "\<exists>c \<in> set u. c = CHR ''$'' \<or> c = CHR ''R''"
  using assms by (cases u) (auto simp: currency_def andthen_Nil split: if_splits)

lemma rmatch_currency_last:
  assumes "rmatch (Seq a (Seq b currency)) u \<noteq> []"
  shows "\<exists>c \<in> set u. c = CHR ''$'' \<or> c = CHR ''R''"
proof -
  from assms obtain x where "x \<in> set (rmatch (Seq a (Seq b currency)) u)"
    by (cases "rmatch (Seq a (Seq b currency)) u") auto
  then obtain m1 g1 t1 m3 g3 t3 m4 g4 t4 where 1: "(m1, g1, t1) \<in> set (rmatch a u)"
    and 3: "(m3, g3, t3) \<in> set (rmatch b t1)"
    and 4: "(m4, g4, t4) \<in> set (rmatch currency t3)"
    by (auto simp: andthen_mem)
  from 4 obtain c where c: "t3 = c # t4" "c = CHR ''$'' \<or> c = CHR ''R''"
    by (cases t3) (auto simp: currency_def split: if_splits)
  from 1 have "u = m1 @ t1" by (rule rmatch_split)
  moreover from 3 have "t1 = m3 @ t3" by (rule rmatch_split)
  ultimately have "c \<in> set u" using c(1) by simp
  with c(2) show ?thesis by blast
qed

lemma no_symbol_suffix:
  assumes "\<forall>c \<in> set t. c \<noteq> CHR ''$'' \<and> c \<noteq> CHR ''R''" and "suffix u t"
  shows "\<not> (\<exists>c \<in> set u. c = CHR ''$'' \<or> c = CHR ''R'')"
  using assms(1) set_mono_suffix [OF assms(2)] by blast

lemma try_currency_no_symbol:
  assumes "\<forall>c \<in> set t. c \<noteq> CHR ''$'' \<and> c \<noteq> CHR ''R''"
  shows "try_currency currency_patterns t = None"
proof -
  have first: "re_search (Seq currency (Seq (Star (Cls is_space)) (Grp amount))) t = None"
  proof (rule re_search_None)
    fix u assume u: "suffix u t"
    show "rmatch (Seq currency (Seq (Star (Cls is_space)) (Grp amount))) u = []"
    proof (rule ccontr)
      assume "rmatch (Seq currency (Seq (Star (Cls is_space)) (Grp amount))) u \<noteq> []"
      then have "\<exists>c \<in> set u. c = CHR ''$'' \<or> c = CHR ''R''"
        by (rule rmatch_currency_first)
      with no_symbol_suffix [OF assms u] show False by contradiction
    qed
  qed
  have second: "re_search (Seq (Grp amount) (Seq (Star (Cls is_space)) currency)) t = None"
  proof (rule re_search_None)
    fix u assume u: "suffix u t"
    show "rmatch (Seq (Grp amount) (Seq (Star (Cls is_space)) currency)) u = []"
    proof (rule ccontr)
      assume "rmatch (Seq (Grp amount) (Seq (Star (Cls is_space)) currency)) u \<noteq> []"
      then have "\<exists>c \<in> set u. c = CHR ''$'' \<or> c = CHR ''R''"
        by (rule rmatch_currency_last)
      with no_symbol_suffix [OF assms u] show False by contradiction
    qed
  qed
  show ?thesis
    unfolding currency_patterns_def try_currency.simps first second by simp
qed

section \<open>Stripping\<close>

lemma dropWhile_append_keep:
  "ys \<noteq> [] \<Longrightarrow> \<not> P (hd ys) \<Longrightarrow> dropWhile P (xs @ ys) = dropWhile P xs @ ys"
  by (induction xs) (auto simp: neq_Nil_conv)

lemma strip_middle:
  assumes "m \<noteq> []" and "\<not> is_space (hd m)" and "\<not> is_space (last m)"
  shows "strip (pre @ m @ post)
         = dropWhile is_space pre @ m @ rev (dropWhile is_space (rev post))"
proof -
  have "dropWhile is_space (pre @ m @ post) = dropWhile is_space pre @ m @ post"
    using assms(1,2) by (simp add: dropWhile_append_keep)
  moreover have "dropWhile is_space (rev post @ rev m @ rev (dropWhile is_space pre))
                 = dropWhile is_space (rev post) @ rev m @ rev (dropWhile is_space pre)"
    using assms(1,3) by (intro dropWhile_append_keep) (simp_all add: hd_rev)
  ultimately show ?thesis
    by (simp add: strip_def)
qed

lemma set_strip: "set (strip s) \<subseteq> set s"
proof -
  have "set (strip s) \<subseteq> set (dropWhile is_space s)"
    using set_dropWhileD [of _ is_space "rev (dropWhile is_space s)"]
    by (auto simp: strip_def)
  then show ?thesis
    using set_dropWhileD [of _ is_space s] by blast
qed

lemma rstrip_head:
  "rev (dropWhile P (rev post)) = [] \<or> hd (rev (dropWhile P (rev post))) = hd post"
proof (cases "rev (dropWhile P (rev post)) = []")
  case True
  then show ?thesis by simp
next
  case False
  have "rev (dropWhile P (rev post)) @ rev (takeWhile P (rev post)) = rev (rev post)"
    unfolding rev_append [symmetric] takeWhile_dropWhile_id ..
  then have "hd post = hd (rev (dropWhile P (rev post)) @ rev (takeWhile P (rev post)))"
    by simp
  also have "\<dots> = hd (rev (dropWhile P (rev post)))"
    using False by (rule hd_append2)
  finally show ?thesis by simp
qed

section \<open>A single decimal digit on the fallback path\<close>

text \<open>
  C10. In a text without a currency symbol whose first run of digits is followed by a
  point and exactly one digit, and whose digits before the point make a number of at
  least 10, \<open>parse_price\<close> returns the number before the point: the fallback pattern
  accepts a fraction of two digits only, so it matches the digits before the point alone.
\<close>

theorem fallback_drops_single_decimal:
  assumes symbol: "\<forall>c \<in> set input. c \<noteq> CHR ''$'' \<and> c \<noteq> CHR ''R''"
    and shape: "input = pre @ ds @ CHR ''.'' # d # post"
    and pre: "\<forall>c \<in> set pre. \<not> is_digit c"
    and ds: "ds \<noteq> []" "\<forall>c \<in> set ds. is_digit c"
    and d: "is_digit d"
    and post: "post = [] \<or> \<not> is_digit (hd post)"
    and floor: "10 \<le> int_of_digits ds"
  shows "parse_price input = Some (of_nat (int_of_digits ds))"
proof -
  define pre' where "pre' = dropWhile is_space pre"
  define post' where "post' = rev (dropWhile is_space (rev post))"
  have "\<not> is_space (hd (ds @ CHR ''.'' # [d]))" "\<not> is_space (last (ds @ CHR ''.'' # [d]))"
    using ds d by (auto simp: hd_append dest: is_digit_simps(2))
  then have "strip (pre @ (ds @ CHR ''.'' # [d]) @ post) = pre' @ (ds @ CHR ''.'' # [d]) @ post'"
    unfolding pre'_def post'_def by (intro strip_middle) simp_all
  then have stripped: "strip input = pre' @ ds @ CHR ''.'' # d # post'"
    by (simp add: shape)
  have pre': "\<forall>c \<in> set pre'. \<not> is_digit c"
    using pre set_dropWhileD [of _ is_space pre] unfolding pre'_def by blast
  have post': "post' = [] \<or> \<not> is_digit (hd post')"
    using post rstrip_head [of is_space post] unfolding post'_def by auto
  have "\<forall>c \<in> set (strip input). c \<noteq> CHR ''$'' \<and> c \<noteq> CHR ''R''"
    using symbol set_strip [of input] by blast
  then have anchored: "try_currency currency_patterns (strip input) = None"
    by (rule try_currency_no_symbol)
  have "re_search number_pattern (strip input) = Some (ds, None, CHR ''.'' # d # post')"
    unfolding stripped
    by (simp only: re_search_number_pattern_skip [OF pre']
        re_search_number_pattern_short [OF ds post'])
  then have "findall number_pattern (strip input)
             = ds # findall number_pattern (CHR ''.'' # d # post')"
    using ds(1) by (subst findall.simps) (simp add: stripped)
  then have "try_numbers (findall number_pattern (strip input)) = Some (of_nat (int_of_digits ds))"
    using py_float_digits [OF ds] floor by simp
  with anchored show ?thesis
    by (simp add: parse_price_def)
qed

theorem fallback_drops_single_decimal_witness: "parse_price ''49.9'' = Some 49"
proof -
  have symbol: "\<forall>c \<in> set ''49.9''. c \<noteq> CHR ''$'' \<and> c \<noteq> CHR ''R''"
    by simp
  have shape: "''49.9'' = [] @ ''49'' @ CHR ''.'' # CHR ''9'' # []"
    by simp
  have pre: "\<forall>c \<in> set []. \<not> is_digit c"
    by simp
  have ds: "''49'' \<noteq> []" "\<forall>c \<in> set ''49''. is_digit c"
    by (simp_all add: is_digit_def)
  have d: "is_digit (CHR ''9'')"
    by (simp add: is_digit_def)
  have post: "[] = [] \<or> \<not> is_digit (hd [])"
    by simp
  have val: "int_of_digits ''49'' = 49"
    by code_simp
  have floor: "10 \<le> int_of_digits ''49''"
    unfolding val by simp
  show ?thesis
    using fallback_drops_single_decimal [OF symbol shape pre ds d post floor]
    unfolding val by simp
qed

section \<open>Printing a price and reading it back\<close>

lemma digit_char_digit:
  assumes "d < 10"
  shows "is_digit (digit_char d)" and "digit_val (digit_char d) = d"
proof -
  from assms have "d \<in> {0, 1, 2, 3, 4, 5, 6, 7, 8, 9}"
    by auto
  then show "is_digit (digit_char d)" and "digit_val (digit_char d) = d"
    by (auto simp: digit_char_def is_digit_def digit_val_def)
qed

lemma digits_of_digits: "digits_of n \<noteq> [] \<and> (\<forall>c \<in> set (digits_of n). is_digit c)"
proof (induction n rule: digits_of.induct)
  case (1 n)
  show ?case
  proof (cases "n < 10")
    case True
    then show ?thesis
      by (subst (1 2) digits_of.simps) (simp add: digit_char_digit)
  next
    case False
    with 1 show ?thesis
      by (subst (1 2) digits_of.simps) (simp add: digit_char_digit)
  qed
qed

lemma int_of_digits_snoc: "int_of_digits (ds @ [c]) = 10 * int_of_digits ds + digit_val c"
  by (simp add: int_of_digits_def)

lemma int_of_digits_digits_of: "int_of_digits (digits_of n) = n"
proof (induction n rule: digits_of.induct)
  case (1 n)
  show ?case
  proof (cases "n < 10")
    case True
    then show ?thesis
      by (subst digits_of.simps) (simp add: int_of_digits_def digit_char_digit)
  next
    case False
    with 1 show ?thesis
      by (subst digits_of.simps) (simp add: int_of_digits_snoc digit_char_digit)
  qed
qed

lemma int_of_two_digits:
  "a < 10 \<Longrightarrow> b < 10 \<Longrightarrow> int_of_digits [digit_char a, digit_char b] = 10 * a + b"
  by (simp add: int_of_digits_def digit_char_digit)

lemma py_float_fraction:
  assumes "ds \<noteq> []" and "\<forall>c \<in> set ds. is_digit c" and "is_digit d1" and "is_digit d2"
  shows "py_float (ds @ [CHR ''.'', d1, d2])
         = Some (of_nat (int_of_digits ds) + of_nat (int_of_digits [d1, d2]) / 100)"
proof -
  have ip: "takeWhile (\<lambda>c. c \<noteq> CHR ''.'') (ds @ [CHR ''.'', d1, d2]) = ds"
    and fp: "dropWhile (\<lambda>c. c \<noteq> CHR ''.'') (ds @ [CHR ''.'', d1, d2]) = [CHR ''.'', d1, d2]"
    using takeWhile_digits [OF assms(2), of "[CHR ''.'', d1, d2]"]
      dropWhile_digits [OF assms(2), of "[CHR ''.'', d1, d2]"]
    by simp_all
  show ?thesis
    unfolding py_float_def Let_def ip fp using assms by (simp add: list_all_iff)
qed

lemma re_search_number_pattern_full:
  assumes "ds \<noteq> []" and "\<forall>c \<in> set ds. is_digit c" and "is_digit d1" and "is_digit d2"
  shows "re_search number_pattern (ds @ CHR ''.'' # d1 # d2 # post)
         = Some (ds @ [CHR ''.'', d1, d2], None, post)"
proof -
  obtain ms where "rmatch (plus digit) (ds @ CHR ''.'' # d1 # d2 # post)
                   = (ds, None, CHR ''.'' # d1 # d2 # post) # ms"
    using rmatch_plus_digit [OF assms(1,2), of "CHR ''.'' # d1 # d2 # post"]
    by (auto dest: is_digit_simps(1))
  then have "\<exists>ms. rmatch number_pattern (ds @ CHR ''.'' # d1 # d2 # post)
                 = (ds @ [CHR ''.'', d1, d2], None, post) # ms"
    using rmatch_fraction_full [OF assms(3,4), of post]
    by (simp add: number_pattern_def andthen_Cons later_group_def)
  moreover from assms(1) obtain c cs where "ds = c # cs"
    by (cases ds) auto
  ultimately show ?thesis
    by auto
qed

lemma strip_plain:
  assumes "s \<noteq> []" and "\<not> is_space (hd s)" and "\<not> is_space (last s)"
  shows "strip s = s"
  using strip_middle [OF assms, of "[]" "[]"] by simp


lemma parse_price_fallback:
  assumes "\<forall>c \<in> set s. c \<noteq> CHR ''$'' \<and> c \<noteq> CHR ''R''"
    and "re_search number_pattern (strip s) = Some (m, g, t)"
    and "length t < length (strip s)"
    and "py_float m = Some p" and "10 \<le> p"
  shows "parse_price s = Some p"
proof -
  have "\<forall>c \<in> set (strip s). c \<noteq> CHR ''$'' \<and> c \<noteq> CHR ''R''"
    using assms(1) set_strip [of s] by blast
  then have "try_currency currency_patterns (strip s) = None"
    by (rule try_currency_no_symbol)
  moreover have "findall number_pattern (strip s) = m # findall number_pattern t"
    using assms(2,3) by (subst findall.simps) simp
  ultimately show ?thesis
    using assms(4,5) by (simp add: parse_price_def)
qed

lemma floor_cents:
  "nat \<lfloor>(of_nat k :: rat) / 100\<rfloor> = k div 100"
  "nat \<lfloor>((of_nat k :: rat) / 100 - of_nat (k div 100)) * 100\<rfloor> = k mod 100"
proof -
  show "nat \<lfloor>(of_nat k :: rat) / 100\<rfloor> = k div 100"
    using floor_divide_of_nat_eq [of k 100, where ?'a = rat] by simp
  have "int k = 100 * int (k div 100) + int (k mod 100)"
    by (simp add: zdiv_int zmod_int)
  then have e: "(of_nat k :: rat) = 100 * of_nat (k div 100) + of_nat (k mod 100)"
    by (metis of_int_of_nat_eq of_int_add of_int_mult of_int_numeral)
  have "((of_nat k :: rat) / 100 - of_nat (k div 100)) * 100 = of_nat (k mod 100)"
    by (subst e) (simp add: field_simps)
  then show "nat \<lfloor>((of_nat k :: rat) / 100 - of_nat (k div 100)) * 100\<rfloor> = k mod 100"
    by (simp only: floor_of_nat nat_int)
qed

lemma py_str_cents:
  "py_str (of_nat k / 100) =
     digits_of (k div 100) @ ''.'' @
       (if k mod 10 = 0 then [digit_char (k mod 100 div 10)]
        else [digit_char (k mod 100 div 10), digit_char (k mod 10)])"
  unfolding py_str_def Let_def floor_cents by (simp add: mod_mod_cancel)


lemma reparse_cents:
  assumes "1000 \<le> k" and "k mod 100 = 0 \<or> k mod 10 \<noteq> 0"
  shows "parse_price (py_str (of_nat k / 100)) = Some (of_nat k / 100)"
proof -
  define n where "n = k div 100"
  define ds where "ds = digits_of n"
  have ds: "ds \<noteq> []" "\<forall>c \<in> set ds. is_digit c"
    unfolding ds_def using digits_of_digits [of n] by simp_all
  have val: "int_of_digits ds = n"
    unfolding ds_def by (rule int_of_digits_digits_of)
  have n: "10 \<le> n"
    unfolding n_def using assms(1) by simp
  have hd: "\<not> is_space (hd (ds @ r))" for r
    using ds by (cases ds) (auto dest: is_digit_simps(2))
  have sym: "\<forall>c \<in> set (ds @ CHR ''.'' # r). c \<noteq> CHR ''$'' \<and> c \<noteq> CHR ''R''"
    if "\<forall>c \<in> set r. is_digit c" for r
    using ds(2) that by (auto dest: is_digit_simps(3))
  show ?thesis
  proof (cases "k mod 10 = 0")
    case True
    with assms(2) have whole: "k mod 100 = 0"
      by simp
    then have k: "k = 100 * n"
      unfolding n_def by presburger
    let ?s = "ds @ CHR ''.'' # CHR ''0'' # []"
    have str: "py_str (of_nat k / 100) = ?s"
      using True whole by (simp add: py_str_cents n_def ds_def digit_char_def)
    have stripped: "strip ?s = ?s"
      using hd [of "CHR ''.'' # CHR ''0'' # []"] by (intro strip_plain) (simp_all add: is_space_def)
    have "parse_price ?s = Some (of_nat n)"
    proof (rule parse_price_fallback)
      show "\<forall>c \<in> set ?s. c \<noteq> CHR ''$'' \<and> c \<noteq> CHR ''R''"
        by (rule sym) (simp add: is_digit_def)
      show "re_search number_pattern (strip ?s) = Some (ds, None, CHR ''.'' # CHR ''0'' # [])"
        unfolding stripped by (rule re_search_number_pattern_short [OF ds]) simp
      show "length (CHR ''.'' # CHR ''0'' # []) < length (strip ?s)"
        unfolding stripped using ds(1) by simp
      show "py_float ds = Some (of_nat n)"
        using py_float_digits [OF ds] val by simp
      show "10 \<le> (of_nat n :: rat)"
        using n by simp
    qed
    then show ?thesis
      unfolding str by (simp add: k)
  next
    case False
    define c where "c = k mod 100"
    define d1 where "d1 = digit_char (c div 10)"
    define d2 where "d2 = digit_char (k mod 10)"
    have c: "c < 100" "c mod 10 = k mod 10"
      unfolding c_def by (simp_all add: mod_mod_cancel)
    have d: "is_digit d1" "is_digit d2"
      unfolding d1_def d2_def using c(1) by (simp_all add: digit_char_digit)
    have "c div 10 < 10"
      using c(1) by (simp add: less_mult_imp_div_less)
    moreover have "k mod 10 < 10"
      by simp
    moreover have "10 * (c div 10) + k mod 10 = c"
      unfolding c(2) [symmetric] by (rule mult_div_mod_eq)
    ultimately have two: "int_of_digits [d1, d2] = c"
      unfolding d1_def d2_def using int_of_two_digits [of "c div 10" "k mod 10"] by simp
    let ?s = "ds @ CHR ''.'' # d1 # d2 # []"
    have str: "py_str (of_nat k / 100) = ?s"
      using False by (simp add: py_str_cents n_def ds_def d1_def d2_def c_def)
    have stripped: "strip ?s = ?s"
      using hd [of "CHR ''.'' # d1 # d2 # []"] d(2)
      by (intro strip_plain) (auto dest: is_digit_simps(2))
    have "int k = 100 * int n + int c"
      unfolding n_def c_def by (simp add: zdiv_int zmod_int)
    then have k: "(of_nat k :: rat) = 100 * of_nat n + of_nat c"
      by (metis of_int_of_nat_eq of_int_add of_int_mult of_int_numeral)
    have "parse_price ?s = Some (of_nat n + of_nat c / 100)"
    proof (rule parse_price_fallback)
      show "\<forall>c \<in> set ?s. c \<noteq> CHR ''$'' \<and> c \<noteq> CHR ''R''"
        by (rule sym) (simp add: d)
      show "re_search number_pattern (strip ?s) = Some (ds @ [CHR ''.'', d1, d2], None, [])"
        unfolding stripped by (rule re_search_number_pattern_full [OF ds d])
      show "length ([] :: string) < length (strip ?s)"
        unfolding stripped by simp
      show "py_float (ds @ [CHR ''.'', d1, d2]) = Some (of_nat n + of_nat c / 100)"
        using py_float_fraction [OF ds d] val two by simp
      show "10 \<le> (of_nat n :: rat) + of_nat c / 100"
        using n by (simp add: add_increasing2)
    qed
    then show ?thesis
      unfolding str by (simp add: k add_divide_distrib)
  qed
qed

section \<open>Every accepted price is a whole number of cents\<close>

lemma star_m_chars:
  assumes body: "\<And>s m g t. (m, g, t) \<in> set (f s) \<Longrightarrow> \<forall>c \<in> set m. P c"
  shows "(m, g, t) \<in> set (star_m f n s) \<Longrightarrow> \<forall>c \<in> set m. P c"
proof (induction n arbitrary: s m g t)
  case 0
  then show ?case by simp
next
  case (Suc n)
  from Suc.prems consider "m = []"
    | m1 g1 t1 m2 g2 where "(m1, g1, t1) \<in> set (f s)" "(m2, g2, t) \<in> set (star_m f n t1)"
        "m = m1 @ m2"
    by (auto simp: andthen_mem)
  then show ?case
  proof cases
    case 1
    then show ?thesis by simp
  next
    case 2
    from 2(1) have "\<forall>c \<in> set m1. P c" by (rule body)
    moreover from 2(2) have "\<forall>c \<in> set m2. P c" by (rule Suc.IH)
    ultimately show ?thesis using 2(3) by auto
  qed
qed

lemma star_m_no_group:
  assumes body: "\<And>s m g t. (m, g, t) \<in> set (f s) \<Longrightarrow> g = None"
  shows "(m, g, t) \<in> set (star_m f n s) \<Longrightarrow> g = None"
proof (induction n arbitrary: s m g t)
  case 0
  then show ?case by simp
next
  case (Suc n)
  from Suc.prems consider "g = None"
    | m1 g1 t1 m2 g2 where "(m1, g1, t1) \<in> set (f s)" "(m2, g2, t) \<in> set (star_m f n t1)"
        "g = later_group g1 g2"
    by (auto simp: andthen_mem)
  then show ?case
  proof cases
    case 1
    then show ?thesis .
  next
    case 2
    from 2(1) have "g1 = None" by (rule body)
    moreover from 2(2) have "g2 = None" by (rule Suc.IH)
    ultimately show ?thesis using 2(3) by (simp add: later_group_def)
  qed
qed

lemma rmatch_Cls_mem:
  "(m, g, t) \<in> set (rmatch (Cls p) s) \<Longrightarrow> \<exists>c. m = [c] \<and> p c \<and> g = None \<and> s = c # t"
  by (cases s) (auto split: if_splits)

lemma rmatch_digit_mem:
  "(m, g, t) \<in> set (rmatch digit s) \<Longrightarrow> \<exists>c. m = [c] \<and> is_digit c \<and> g = None"
  unfolding digit_def by (drule rmatch_Cls_mem) blast

lemma rmatch_plus_digit_mem:
  assumes "(m, g, t) \<in> set (rmatch (plus digit) s)"
  shows "m \<noteq> [] \<and> (\<forall>c \<in> set m. is_digit c)"
proof -
  from assms obtain m1 g1 t1 m2 g2 where 1: "(m1, g1, t1) \<in> set (rmatch digit s)"
    and 2: "(m2, g2, t) \<in> set (star_m (rmatch digit) (length t1) t1)" and m: "m = m1 @ m2"
    by (auto simp: plus_def andthen_mem)
  from 1 obtain c where "m1 = [c]" "is_digit c"
    by (blast dest: rmatch_digit_mem)
  moreover have "\<forall>c \<in> set m2. is_digit c"
    using 2 by (rule star_m_chars [rotated]) (auto dest!: rmatch_digit_mem)
  ultimately show ?thesis using m by auto
qed

lemma rmatch_fraction_mem:
  assumes "(m, g, t) \<in> set (rmatch (Opt (Seq (Cls (\<lambda>c. c = CHR ''.'')) (Seq digit digit))) s)"
  shows "m = [] \<or> (\<exists>d1 d2. m = [CHR ''.'', d1, d2] \<and> is_digit d1 \<and> is_digit d2)"
proof -
  from assms consider "m = []"
    | m1 g1 t1 m2 g2 t2 m3 g3 where "(m1, g1, t1) \<in> set (rmatch (Cls (\<lambda>c. c = CHR ''.'')) s)"
        "(m2, g2, t2) \<in> set (rmatch digit t1)" "(m3, g3, t) \<in> set (rmatch digit t2)"
        "m = m1 @ m2 @ m3"
    by (auto simp: andthen_mem)
  then show ?thesis
  proof cases
    case 1
    then show ?thesis by simp
  next
    case 2
    from 2(1) have "m1 = [CHR ''.'']"
      by (blast dest: rmatch_Cls_mem)
    moreover from 2(2) obtain d1 where "m2 = [d1]" "is_digit d1"
      by (blast dest: rmatch_digit_mem)
    moreover from 2(3) obtain d2 where "m3 = [d2]" "is_digit d2"
      by (blast dest: rmatch_digit_mem)
    ultimately show ?thesis using 2(4) by simp
  qed
qed

lemma rmatch_group_of_three_mem:
  assumes "(m, g, t) \<in> set (rmatch (Seq (Cls (\<lambda>c. c = CHR '','' \<or> is_space c)) (Seq digit (Seq digit digit))) s)"
  shows "\<forall>c \<in> set m. c \<noteq> CHR ''.''"
proof -
  from assms obtain m1 g1 t1 m2 g2 t2 m3 g3 t3 m4 g4
    where 1: "(m1, g1, t1) \<in> set (rmatch (Cls (\<lambda>c. c = CHR '','' \<or> is_space c)) s)"
      and 2: "(m2, g2, t2) \<in> set (rmatch digit t1)" and 3: "(m3, g3, t3) \<in> set (rmatch digit t2)"
      and 4: "(m4, g4, t) \<in> set (rmatch digit t3)" and m: "m = m1 @ m2 @ m3 @ m4"
    by (auto simp: andthen_mem)
  from 1 obtain c where "m1 = [c]" "c = CHR '','' \<or> is_space c"
    by (blast dest: rmatch_Cls_mem)
  then have "\<forall>c \<in> set m1. c \<noteq> CHR ''.''"
    by (auto simp: is_space_def)
  moreover have "\<forall>c \<in> set m2. c \<noteq> CHR ''.''" "\<forall>c \<in> set m3. c \<noteq> CHR ''.''"
    "\<forall>c \<in> set m4. c \<noteq> CHR ''.''"
    using 2 3 4 by (auto dest!: rmatch_digit_mem dest: is_digit_simps(1))
  ultimately show ?thesis using m by auto
qed


lemma rmatch_groups_of_three_mem:
  assumes "(m, g, t) \<in> set (rmatch (Star (Seq (Cls (\<lambda>c. c = CHR '','' \<or> is_space c)) (Seq digit (Seq digit digit)))) s)"
  shows "\<forall>c \<in> set m. c \<noteq> CHR ''.''"
proof -
  from assms have "(m, g, t) \<in> set (star_m (rmatch (Seq (Cls (\<lambda>c. c = CHR '','' \<or> is_space c)) (Seq digit (Seq digit digit)))) (length s) s)"
    by (simp only: rmatch.simps)
  then show ?thesis
    by (rule star_m_chars [rotated]) (rule rmatch_group_of_three_mem)
qed

lemma rmatch_amount_mem:
  assumes "(m, g, t) \<in> set (rmatch amount s)"
  shows "\<exists>body fr. m = body @ fr \<and> (\<forall>c \<in> set body. c \<noteq> CHR ''.'')
           \<and> (fr = [] \<or> (\<exists>d1 d2. fr = [CHR ''.'', d1, d2] \<and> is_digit d1 \<and> is_digit d2))"
proof -
  from assms obtain m1 g1 t1 m2 g2 t2 m3 g3
    where 1: "(m1, g1, t1) \<in> set (rmatch (plus digit) s)"
      and 2: "(m2, g2, t2) \<in> set (rmatch (Star (Seq (Cls (\<lambda>c. c = CHR '','' \<or> is_space c)) (Seq digit (Seq digit digit)))) t1)"
      and 3: "(m3, g3, t) \<in> set (rmatch (Opt (Seq (Cls (\<lambda>c. c = CHR ''.'')) (Seq digit digit))) t2)"
      and m: "m = m1 @ m2 @ m3"
    by (simp only: amount_def rmatch.simps(2) andthen_mem prod.inject) blast
  have "\<forall>c \<in> set m1. c \<noteq> CHR ''.''"
    using rmatch_plus_digit_mem [OF 1] by (auto dest: is_digit_simps(1))
  moreover note rmatch_groups_of_three_mem [OF 2]
  ultimately have "\<forall>c \<in> set (m1 @ m2). c \<noteq> CHR ''.''"
    by auto
  with rmatch_fraction_mem [OF 3] m show ?thesis
    by (intro exI [of _ "m1 @ m2"] exI [of _ m3]) simp
qed

lemma rmatch_number_pattern_mem:
  assumes "(m, g, t) \<in> set (rmatch number_pattern s)"
  shows "\<exists>body fr. m = body @ fr \<and> (\<forall>c \<in> set body. c \<noteq> CHR ''.'')
           \<and> (fr = [] \<or> (\<exists>d1 d2. fr = [CHR ''.'', d1, d2] \<and> is_digit d1 \<and> is_digit d2))"
proof -
  from assms obtain m1 g1 t1 m3 g3
    where 1: "(m1, g1, t1) \<in> set (rmatch (plus digit) s)"
      and 3: "(m3, g3, t) \<in> set (rmatch (Opt (Seq (Cls (\<lambda>c. c = CHR ''.'')) (Seq digit digit))) t1)"
      and m: "m = m1 @ m3"
    by (simp only: number_pattern_def rmatch.simps(2) andthen_mem prod.inject) blast
  have "\<forall>c \<in> set m1. c \<noteq> CHR ''.''"
    using rmatch_plus_digit_mem [OF 1] by (auto dest: is_digit_simps(1))
  with rmatch_fraction_mem [OF 3] m show ?thesis
    by (intro exI [of _ m1] exI [of _ m3]) simp
qed

lemma py_float_cents:
  assumes body: "\<forall>c \<in> set body. c \<noteq> CHR ''.''"
    and fr: "fr = [] \<or> (\<exists>d1 d2. fr = [CHR ''.'', d1, d2])"
    and p: "py_float (body @ fr) = Some p"
  shows "\<exists>k. p = of_nat k / 100"
proof -
  have "takeWhile (\<lambda>c. c \<noteq> CHR ''.'') fr = []" "dropWhile (\<lambda>c. c \<noteq> CHR ''.'') fr = fr"
    using fr by (elim disjE exE; simp)+
  moreover have "takeWhile (\<lambda>c. c \<noteq> CHR ''.'') (body @ fr) = body @ takeWhile (\<lambda>c. c \<noteq> CHR ''.'') fr"
    by (rule takeWhile_append2) (use body in blast)
  moreover have "dropWhile (\<lambda>c. c \<noteq> CHR ''.'') (body @ fr) = dropWhile (\<lambda>c. c \<noteq> CHR ''.'') fr"
    by (rule dropWhile_append2) (use body in blast)
  ultimately have ip: "takeWhile (\<lambda>c. c \<noteq> CHR ''.'') (body @ fr) = body"
    and fp: "dropWhile (\<lambda>c. c \<noteq> CHR ''.'') (body @ fr) = fr"
    by simp_all
  from fr show ?thesis
  proof
    assume "fr = []"
    with p have "p = of_nat (int_of_digits body)"
      unfolding py_float_def Let_def ip fp by (simp split: if_splits)
    then have "p = of_nat (100 * int_of_digits body) / 100"
      by simp
    then show ?thesis ..
  next
    assume "\<exists>d1 d2. fr = [CHR ''.'', d1, d2]"
    then obtain d1 d2 where "fr = [CHR ''.'', d1, d2]"
      by blast
    with p have "p = of_nat (int_of_digits body) + of_nat (int_of_digits [d1, d2]) / 100"
      unfolding py_float_def Let_def ip fp by (simp split: if_splits)
    then have "p = of_nat (100 * int_of_digits body + int_of_digits [d1, d2]) / 100"
      by (simp add: add_divide_distrib)
    then show ?thesis ..
  qed
qed

lemma separators_removed:
  assumes "\<forall>c \<in> set body. c \<noteq> CHR ''.''"
    and "fr = [] \<or> (\<exists>d1 d2. fr = [CHR ''.'', d1, d2] \<and> is_digit d1 \<and> is_digit d2)"
  shows "\<exists>body'. replace_char (CHR '' '') (replace_char (CHR '','') (body @ fr)) = body' @ fr
           \<and> (\<forall>c \<in> set body'. c \<noteq> CHR ''.'')"
proof -
  have "replace_char (CHR '' '') (replace_char (CHR '','') fr) = fr"
    using assms(2) by (auto simp: replace_char_def is_digit_def)
  then have "replace_char (CHR '' '') (replace_char (CHR '','') (body @ fr))
             = replace_char (CHR '' '') (replace_char (CHR '','') body) @ fr"
    by (simp add: replace_char_def)
  moreover have "\<forall>c \<in> set (replace_char (CHR '' '') (replace_char (CHR '','') body)). c \<noteq> CHR ''.''"
    using assms(1) by (simp add: replace_char_def)
  ultimately show ?thesis by blast
qed


lemma group_of_first_pattern:
  assumes "(m, g, t) \<in> set (rmatch (Seq currency (Seq (Star (Cls is_space)) (Grp amount))) u)"
  shows "\<exists>gc g' t' u'. g = Some gc \<and> (gc, g', t') \<in> set (rmatch amount u')"
proof -
  from assms obtain g1 g2 m3 g3 t2
    where 3: "(m3, g3, t) \<in> set (rmatch (Grp amount) t2)"
      and g: "g = later_group g1 (later_group g2 g3)"
    by (simp only: rmatch.simps(2) andthen_mem prod.inject) blast
  from 3 obtain g' where "(m3, g', t) \<in> set (rmatch amount t2)" "g3 = Some m3"
    by auto
  with g show ?thesis
    by (auto simp: later_group_def)
qed

lemma group_of_second_pattern:
  assumes "(m, g, t) \<in> set (rmatch (Seq (Grp amount) (Seq (Star (Cls is_space)) currency)) u)"
  shows "\<exists>gc g' t' u'. g = Some gc \<and> (gc, g', t') \<in> set (rmatch amount u')"
proof -
  from assms obtain m1 g1 t1 m2 g2 t2 m3 g3
    where 1: "(m1, g1, t1) \<in> set (rmatch (Grp amount) u)"
      and 2: "(m2, g2, t2) \<in> set (rmatch (Star (Cls is_space)) t1)"
      and 3: "(m3, g3, t) \<in> set (rmatch currency t2)"
      and g: "g = later_group g1 (later_group g2 g3)"
    by (simp only: rmatch.simps(2) andthen_mem prod.inject) blast
  from 1 obtain g' where 4: "(m1, g', t1) \<in> set (rmatch amount u)" "g1 = Some m1"
    by auto
  from 2 have "(m2, g2, t2) \<in> set (star_m (rmatch (Cls is_space)) (length t1) t1)"
    by (simp only: rmatch.simps)
  then have "g2 = None"
    by (rule star_m_no_group [rotated]) (blast dest: rmatch_Cls_mem)
  moreover from 3 have "g3 = None"
    unfolding currency_def by (blast dest: rmatch_Cls_mem)
  ultimately have "g = Some m1"
    using g 4(2) by (simp add: later_group_def)
  with 4(1) show ?thesis by blast
qed

lemma group_cents:
  assumes "(gc, g', t') \<in> set (rmatch amount u')"
    and "py_float (replace_char (CHR '' '') (replace_char (CHR '','') gc)) = Some p"
  shows "\<exists>k. p = of_nat k / 100"
proof -
  from rmatch_amount_mem [OF assms(1)] obtain body fr
    where gc: "gc = body @ fr" and body: "\<forall>c \<in> set body. c \<noteq> CHR ''.''"
      and fr: "fr = [] \<or> (\<exists>d1 d2. fr = [CHR ''.'', d1, d2] \<and> is_digit d1 \<and> is_digit d2)"
    by blast
  from separators_removed [OF body fr] obtain body'
    where "replace_char (CHR '' '') (replace_char (CHR '','') gc) = body' @ fr"
      and "\<forall>c \<in> set body'. c \<noteq> CHR ''.''"
    unfolding gc by blast
  moreover from fr have "fr = [] \<or> (\<exists>d1 d2. fr = [CHR ''.'', d1, d2])"
    by blast
  ultimately show ?thesis
    using assms(2) py_float_cents [of body' fr p] by simp
qed

lemma try_currency_found:
  "try_currency ps s = Some p \<Longrightarrow>
   \<exists>pat \<in> set ps. \<exists>m g t. re_search pat s = Some (m, g, t)
      \<and> py_float (replace_char (CHR '' '') (replace_char (CHR '','')
            (case g of None \<Rightarrow> [] | Some x \<Rightarrow> x))) = Some p"
proof (induction ps)
  case Nil
  then show ?case by simp
next
  case (Cons pat ps)
  show ?case
  proof (cases "re_search pat s")
    case None
    with Cons show ?thesis by simp
  next
    case (Some x)
    obtain m g t where x: "x = (m, g, t)"
      by (cases x)
    let ?v = "py_float (replace_char (CHR '' '') (replace_char (CHR '','')
                (case g of None \<Rightarrow> [] | Some x \<Rightarrow> x)))"
    show ?thesis
    proof (cases "?v = Some p")
      case True
      with Some x show ?thesis by auto
    next
      case False
      with Cons.prems Some x have "try_currency ps s = Some p"
        by (auto split: option.splits if_splits)
      with Cons.IH show ?thesis by auto
    qed
  qed
qed

lemma try_currency_cents:
  assumes "try_currency currency_patterns s = Some p"
  shows "\<exists>k. p = of_nat k / 100"
proof -
  let ?p1 = "Seq currency (Seq (Star (Cls is_space)) (Grp amount))"
  let ?p2 = "Seq (Grp amount) (Seq (Star (Cls is_space)) currency)"
  from try_currency_found [OF assms] obtain pat m g t
    where pat: "pat = ?p1 \<or> pat = ?p2" and found: "re_search pat s = Some (m, g, t)"
      and conv: "py_float (replace_char (CHR '' '') (replace_char (CHR '','')
                   (case g of None \<Rightarrow> [] | Some x \<Rightarrow> x))) = Some p"
    unfolding currency_patterns_def by auto
  from re_search_Some [OF found] obtain u ms where "rmatch pat u = (m, g, t) # ms"
    by blast
  then have "(m, g, t) \<in> set (rmatch pat u)"
    by simp
  with pat obtain gc g' t' u' where "g = Some gc" "(gc, g', t') \<in> set (rmatch amount u')"
    using group_of_first_pattern [of m g t u] group_of_second_pattern [of m g t u] by blast
  with conv show ?thesis
    using group_cents [of gc g' t' u' p] by simp
qed

lemma findall_mem:
  "m \<in> set (findall r s) \<Longrightarrow> \<exists>u g t. (m, g, t) \<in> set (rmatch r u)"
proof (induction "length s" arbitrary: s rule: less_induct)
  case less
  show ?case
  proof (cases "re_search r s")
    case None
    with less.prems show ?thesis
      by (subst (asm) findall.simps) simp
  next
    case (Some x)
    obtain m' g' t' where x: "x = (m', g', t')"
      by (cases x)
    from re_search_Some [OF Some] obtain u ms where "rmatch r u = (m', g', t') # ms"
      unfolding x by blast
    then have first: "(m', g', t') \<in> set (rmatch r u)"
      by simp
    from less.prems Some x have "length t' < length s \<and> (m = m' \<or> m \<in> set (findall r t'))"
      by (subst (asm) findall.simps) (simp split: if_splits)
    then show ?thesis
      using first less.hyps [of t'] by blast
  qed
qed

lemma try_numbers_mem: "try_numbers ns = Some p \<Longrightarrow> \<exists>num \<in> set ns. py_float num = Some p"
  by (induction ns) (auto split: option.splits if_splits)

lemma parse_price_cents:
  assumes "parse_price x = Some p"
  shows "\<exists>k. p = of_nat k / 100"
proof (cases "try_currency currency_patterns (strip x)")
  case (Some q)
  with assms have "try_currency currency_patterns (strip x) = Some p"
    by (simp add: parse_price_def)
  then show ?thesis by (rule try_currency_cents)
next
  case None
  with assms have "try_numbers (findall number_pattern (strip x)) = Some p"
    by (simp add: parse_price_def)
  then obtain num where "num \<in> set (findall number_pattern (strip x))" "py_float num = Some p"
    by (blast dest: try_numbers_mem)
  moreover then obtain u g t where "(num, g, t) \<in> set (rmatch number_pattern u)"
    by (blast dest: findall_mem)
  then obtain body fr where "num = body @ fr" "\<forall>c \<in> set body. c \<noteq> CHR ''.''"
    "fr = [] \<or> (\<exists>d1 d2. fr = [CHR ''.'', d1, d2])"
    by (blast dest: rmatch_number_pattern_mem)
  ultimately show ?thesis
    using py_float_cents [of body fr p] by simp
qed

section \<open>Re-parsing a printed price\<close>

text \<open>
  C3, as the code has it. \<open>str\<close> drops trailing zeros of the fraction and the fallback
  pattern reads a fraction of exactly two digits, so re-parsing the printed price gives
  the price back when the price is at least 10 and its cents are either zero or do not
  end in zero. The printed form is modelled for prices below \<open>10^13\<close>, where it is the
  decimal numeral itself.
\<close>

theorem reparse_stable:
  assumes "parse_price x = Some p"
    and "10 \<le> p" and "p < 10 ^ 13"
    and "\<lfloor>p * 100\<rfloor> mod 100 = 0 \<or> \<lfloor>p * 100\<rfloor> mod 10 \<noteq> 0"
  shows "parse_price (py_str p) = Some p"
proof -
  from parse_price_cents [OF assms(1)] obtain k where p: "p = of_nat k / 100"
    by blast
  then have fl: "\<lfloor>p * 100\<rfloor> = int k"
    by simp
  from assms(2) have "1000 \<le> k"
    unfolding p by simp
  moreover from assms(4) have "k mod 100 = 0 \<or> k mod 10 \<noteq> 0"
    unfolding fl by (metis of_nat_mod of_nat_numeral of_nat_0 of_nat_eq_iff)
  ultimately show ?thesis
    unfolding p by (rule reparse_cents)
qed

theorem reparse_stable_witness: "parse_price (py_str 1299) = Some 1299"
proof -
  have "\<lfloor>(1299 :: rat) * 100\<rfloor> mod 100 = 0"
    by simp
  then show ?thesis
    using reparse_stable [OF parse_price_1299] by simp
qed

text \<open>
  C3 as stated fails on both counts: \<open>$49.90\<close> parses to 49.9, which prints as
  \<open>49.9\<close> and re-parses to 49; \<open>$5\<close> parses to 5, which prints as \<open>5.0\<close> and
  re-parses to nothing.
\<close>

theorem reparse_changes_value:
  "parse_price ''$49.90'' = Some (499 / 10) \<and> parse_price (py_str (499 / 10)) = Some 49
   \<and> parse_price ''$5'' = Some 5 \<and> parse_price (py_str 5) = None"
  by code_simp

end
